theory Spec2Isabelle
  imports Complex_Main "HOL-Library.AList" "HOL-Library.Char_ord" "HOL-Library.List_Lexorder"
begin

section \<open>Python values, exceptions and logging\<close>

text \<open>
  JSON data as the test harness sees it: \<open>None\<close>, booleans, integers, strings, lists and
  dictionaries with string keys. A dictionary is an association list in insertion order.
  Python strings are modelled by HOL strings (code points below 256) and JSON numbers by
  Python's unbounded integers. Of the floats, the three that \<open>json\<close> writes as constants
  are modelled: \<open>NaN\<close>, \<open>Infinity\<close> and \<open>-Infinity\<close>. Finite floating-point numbers are
  outside the embedding, and so are the limits of the interpreter (recursion depth, the
  digit limit of integer conversion).
\<close>

datatype pyfloat = NaN | PosInf | NegInf

datatype json =
    JNull
  | JBool bool
  | JInt int
  | JFloat pyfloat
  | JStr string
  | JArr "json list"
  | JObj "(string \<times> json) list"

text \<open>
  An exception carries its class, the text \<open>str(e)\<close> and the exception it was raised
  \<open>from\<close>. The type stands for instances of Python's \<open>Exception\<close>, the class every handler
  of the harness catches; \<open>AssertionError\<close> is the one class a handler singles out.
\<close>

datatype exn_kind =
    AssertionError
  | ConnectionError
  | RuntimeError
  | TimeoutError
  | ValueError
  | JSONDecodeError
  | FileNotFoundError
  | OtherError

datatype exn = Exn (kind: exn_kind) (message: string) (cause: "exn option")

datatype level = DEBUG | INFO | WARNING | ERROR

text \<open>
  The two scoped resources a connection acquires, in this order: the transport
  (\<open>stdio_client\<close>: the server process and its pipes) and the protocol session
  (\<open>ClientSession\<close>).
\<close>

datatype handle = Transport | Handshake

text \<open>
  The effects the harness has outside its own objects: the records written by the logger,
  and the scoped resources entered and exited so far, each in the order it happened.
\<close>

record world =
  logged :: "(level \<times> string) list"
  acquired :: "handle list"
  released :: "handle list"

text \<open>A name between single quotes, as the messages of the harness print it.\<close>

definition quoted :: "string \<Rightarrow> string" where
  "quoted s = CHR 0x27 # s @ [CHR 0x27]"

definition log_msg :: "level \<Rightarrow> string \<Rightarrow> world \<Rightarrow> world" where
  "log_msg l s w = w\<lparr>logged := logged w @ [(l, s)]\<rparr>"

text \<open>
  An awaited call completes after some seconds with its outcome, or never completes.
\<close>

datatype 'a awaited = Completes rat 'a | Never

section \<open>The protocol SDK, as the client consumes it\<close>

datatype tool = Tool (name_of: string) (description_of: string)

datatype content = TextContent string | OtherContent

type_synonym stream = nat

text \<open>
  An entered context manager: which resource it holds, and what its exit does when it is
  handed the pending exception (it raises, or it returns and says whether it suppresses).
\<close>

record ctx =
  ctx_handle :: handle
  aexit :: "exn option \<Rightarrow> exn + bool"

text \<open>A \<open>ClientSession\<close>: the outcome of each call the harness makes on it.\<close>

record session =
  initialize :: "exn option"
  session_list_tools :: "(exn + tool list) awaited"
  session_call_tool :: "string \<Rightarrow> (string \<times> json) list \<Rightarrow> exn + content list"

record server_params =
  sp_command :: string
  sp_args :: "string list"
  sp_env :: "(string \<times> string) list"

text \<open>
  What entering the two context managers does for given server parameters: it raises, or
  it yields its value together with the context manager that is now open.
\<close>

record sdk =
  stdio_client :: "server_params \<Rightarrow> exn + ((stream \<times> stream) \<times> ctx)"
  ClientSession :: "stream \<Rightarrow> stream \<Rightarrow> exn + (session \<times> ctx)"

section \<open>AsyncExitStack\<close>

text \<open>
  \<open>aclose\<close> pops every callback, last entered first. A callback that raises replaces the
  pending exception, one that returns true clears it, and the remaining callbacks still
  run; what is pending at the end is raised. The stack is a list with its top first.
\<close>

fun exit_callbacks :: "ctx list \<Rightarrow> exn option \<Rightarrow> world \<Rightarrow> exn option \<times> world" where
  "exit_callbacks [] pending w = (pending, w)"
| "exit_callbacks (cb # rest) pending w =
     (let w' = w\<lparr>released := released w @ [ctx_handle cb]\<rparr> in
      case aexit cb pending of
        Inl new_exc \<Rightarrow> exit_callbacks rest (Some new_exc) w'
      | Inr cb_suppress \<Rightarrow> exit_callbacks rest (if cb_suppress then None else pending) w')"

definition aclose :: "ctx list \<Rightarrow> world \<Rightarrow> exn option \<times> world" where
  "aclose stack w = exit_callbacks stack None w"

definition enter_async_context :: "ctx \<Rightarrow> ctx list \<Rightarrow> world \<Rightarrow> ctx list \<times> world" where
  "enter_async_context cm stack w = (cm # stack, w\<lparr>acquired := acquired w @ [ctx_handle cm]\<rparr>)"

section \<open>MockMCPClient (client.py)\<close>

record client =
  priv_server_params :: server_params
  priv_session :: "session option"
  priv_read_stream :: "stream option"
  priv_write_stream :: "stream option"
  priv_exit_stack :: "ctx list option"

definition MockMCPClient :: "server_params \<Rightarrow> client" where
  "MockMCPClient params =
     \<lparr>priv_server_params = params, priv_session = None, priv_read_stream = None,
      priv_write_stream = None, priv_exit_stack = None\<rparr>"

definition is_connected :: "client \<Rightarrow> bool" where
  "is_connected c = (priv_session c \<noteq> None)"

definition connection_error :: "exn \<Rightarrow> exn" where
  "connection_error e = Exn ConnectionError (''Could not connect to MCP server: '' @ message e) (Some e)"

text \<open>The handler of \<open>connect\<close> (lines 105 to 114): clean up, reset the fields, wrap.\<close>

definition connect_except :: "exn \<Rightarrow> client \<Rightarrow> world \<Rightarrow> (exn + unit) \<times> client \<times> world" where
  "connect_except e c w =
     (let reset = (\<lambda>c' w'.
            (Inl (connection_error e),
             c'\<lparr>priv_session := None, priv_read_stream := None, priv_write_stream := None\<rparr>,
             log_msg ERROR (''Failed to connect to MCP server: '' @ message e) w'))
      in case priv_exit_stack c of
           None \<Rightarrow> reset c w
         | Some stack \<Rightarrow>
             (case aclose stack w of
                (Some raised, w') \<Rightarrow> (Inl raised, c\<lparr>priv_exit_stack := Some []\<rparr>, w')
              | (None, w') \<Rightarrow> reset (c\<lparr>priv_exit_stack := None\<rparr>) w'))"

definition connect :: "sdk \<Rightarrow> client \<Rightarrow> world \<Rightarrow> (exn + unit) \<times> client \<times> world" where
  "connect lib c w =
     (if priv_session c \<noteq> None then (Inr (), c, log_msg WARNING ''Client is already connected'' w)
      else
        let c0 = c\<lparr>priv_exit_stack := Some []\<rparr> in
        case stdio_client lib (priv_server_params c) of
          Inl e \<Rightarrow> connect_except e c0 w
        | Inr ((read, write), transport_cm) \<Rightarrow>
            (let (stack1, w1) = enter_async_context transport_cm [] w;
                 c1 = c0\<lparr>priv_exit_stack := Some stack1, priv_read_stream := Some read,
                         priv_write_stream := Some write\<rparr>
             in case ClientSession lib read write of
                  Inl e \<Rightarrow> connect_except e c1 w1
                | Inr (sess, session_cm) \<Rightarrow>
                    (let (stack2, w2) = enter_async_context session_cm stack1 w1;
                         c2 = c1\<lparr>priv_exit_stack := Some stack2, priv_session := Some sess\<rparr>
                     in case initialize sess of
                          Some e \<Rightarrow> connect_except e c2 w2
                        | None \<Rightarrow>
                            (Inr (), c2, log_msg DEBUG ''MockMCPClient connected successfully'' w2))))"

definition disconnect :: "client \<Rightarrow> world \<Rightarrow> (exn + unit) \<times> client \<times> world" where
  "disconnect c w =
     (let finish = (\<lambda>c' w'.
            (Inr (),
             c'\<lparr>priv_session := None, priv_read_stream := None, priv_write_stream := None\<rparr>,
             log_msg DEBUG ''MockMCPClient disconnected'' w'))
      in case priv_exit_stack c of
           None \<Rightarrow> finish c w
         | Some stack \<Rightarrow>
             (case aclose stack w of
                (Some raised, w') \<Rightarrow> (Inl raised, c\<lparr>priv_exit_stack := Some []\<rparr>, w')
              | (None, w') \<Rightarrow> finish (c\<lparr>priv_exit_stack := None\<rparr>) w'))"

definition ensure_connected :: "client \<Rightarrow> exn + session" where
  "ensure_connected c =
     (case priv_session c of
        None \<Rightarrow> Inl (Exn RuntimeError
          (''Client is not connected. Use 'async with MockMCPClient(...)' or call connect()'') None)
      | Some s \<Rightarrow> Inr s)"

definition list_tools :: "client \<Rightarrow> (exn + tool list) awaited" where
  "list_tools c =
     (case ensure_connected c of
        Inl e \<Rightarrow> Completes 0 (Inl e)
      | Inr s \<Rightarrow> session_list_tools s)"

definition call_tool ::
  "client \<Rightarrow> string \<Rightarrow> (string \<times> json) list option \<Rightarrow> world \<Rightarrow> (exn + content list) \<times> world" where
  "call_tool c name arguments w =
     (case ensure_connected c of
        Inl e \<Rightarrow> (Inl e, w)
      | Inr s \<Rightarrow>
          (case session_call_tool s name (case arguments of None \<Rightarrow> [] | Some a \<Rightarrow> a) of
             Inr result \<Rightarrow> (Inr result, log_msg DEBUG (''Tool '' @ quoted name @ '' called successfully'') w)
           | Inl e \<Rightarrow> (Inl e, log_msg ERROR (''Tool '' @ quoted name @ '' call failed: '' @ message e) w)))"

text \<open>
  Specification-side vocabulary for the claims about \<open>connect\<close>: the exception that occurs
  during spawn, stream setup or handshake (if any), and the context managers that were
  entered before it, in the order they were entered.
\<close>

definition connect_failure :: "sdk \<Rightarrow> server_params \<Rightarrow> exn option" where
  "connect_failure lib params =
     (case stdio_client lib params of
        Inl e \<Rightarrow> Some e
      | Inr ((read, write), transport_cm) \<Rightarrow>
          (case ClientSession lib read write of
             Inl e \<Rightarrow> Some e
           | Inr (sess, session_cm) \<Rightarrow> initialize sess))"

definition entered :: "sdk \<Rightarrow> server_params \<Rightarrow> ctx list" where
  "entered lib params =
     (case stdio_client lib params of
        Inl e \<Rightarrow> []
      | Inr ((read, write), transport_cm) \<Rightarrow>
          transport_cm #
          (case ClientSession lib read write of
             Inl e \<Rightarrow> []
           | Inr (sess, session_cm) \<Rightarrow> [session_cm]))"

section \<open>MCPTestServer and MCPTestServerFactory (server.py)\<close>

record server =
  command :: string
  args :: "string list"
  env :: "(string \<times> string) list"
  timeout :: rat
  priv_client :: "client option"
  server_priv_server_params :: server_params

definition MCPTestServer ::
  "string \<Rightarrow> string list option \<Rightarrow> (string \<times> string) list option \<Rightarrow> rat \<Rightarrow> server" where
  "MCPTestServer cmd as ev t =
     (let as' = (case as of None \<Rightarrow> [] | Some a \<Rightarrow> a);
          ev' = (case ev of None \<Rightarrow> [] | Some v \<Rightarrow> v)
      in \<lparr>command = cmd, args = as', env = ev', timeout = t, priv_client = None,
          server_priv_server_params = \<lparr>sp_command = cmd, sp_args = as', sp_env = ev'\<rparr>\<rparr>)"

fun join :: "string \<Rightarrow> string list \<Rightarrow> string" where
  "join sep [] = []"
| "join sep [x] = x"
| "join sep (x # y # ys) = x @ sep @ join sep (y # ys)"

definition stop :: "server \<Rightarrow> world \<Rightarrow> (exn + unit) \<times> server \<times> world" where
  "stop srv w =
     (case priv_client srv of
        None \<Rightarrow> (Inr (), srv, w)
      | Some c \<Rightarrow>
          (case disconnect c w of
             (Inr u, c', w') \<Rightarrow>
               (Inr (), srv\<lparr>priv_client := None\<rparr>, log_msg INFO ''MCP test server stopped'' w')
           | (Inl e, c', w') \<Rightarrow>
               (Inr (), srv\<lparr>priv_client := None\<rparr>,
                log_msg WARNING (''Error stopping MCP test server: '' @ message e) w')))"

definition start :: "sdk \<Rightarrow> server \<Rightarrow> world \<Rightarrow> (exn + unit) \<times> server \<times> world" where
  "start lib srv w =
     (let w0 = log_msg INFO
                 (''Starting MCP test server: '' @ command srv @ '' '' @ join '' '' (args srv)) w;
          c0 = MockMCPClient (server_priv_server_params srv)
      in case connect lib c0 w0 of
           (Inr u, c1, w1) \<Rightarrow>
             (Inr (), srv\<lparr>priv_client := Some c1\<rparr>,
              log_msg INFO ''MCP test server started successfully'' w1)
         | (Inl e, c1, w1) \<Rightarrow>
             (case stop (srv\<lparr>priv_client := Some c1\<rparr>)
                     (log_msg ERROR (''Failed to start MCP test server: '' @ message e) w1) of
                (Inl e2, srv', w2) \<Rightarrow> (Inl e2, srv', w2)
              | (Inr u, srv', w2) \<Rightarrow>
                  (Inl (Exn RuntimeError (''Could not start MCP server: '' @ message e) (Some e)),
                   srv', w2)))"

definition not_started :: exn where
  "not_started = Exn RuntimeError
     ''Server is not started. Use 'async with MCPTestServer(...)' or call start()'' None"

definition get_client :: "server \<Rightarrow> exn + client" where
  "get_client srv =
     (case priv_client srv of
        None \<Rightarrow> Inl not_started
      | Some c \<Rightarrow> if \<not> is_connected c then Inl not_started else Inr c)"

definition is_running :: "server \<Rightarrow> bool" where
  "is_running srv = (case priv_client srv of None \<Rightarrow> False | Some c \<Rightarrow> is_connected c)"

definition restart :: "sdk \<Rightarrow> server \<Rightarrow> world \<Rightarrow> (exn + unit) \<times> server \<times> world" where
  "restart lib srv w =
     (case stop srv (log_msg INFO ''Restarting MCP test server'' w) of
        (Inl e, srv', w') \<Rightarrow> (Inl e, srv', w')
      | (Inr u, srv', w') \<Rightarrow> start lib srv' w')"

definition timeout_error :: "exn \<Rightarrow> exn" where
  "timeout_error e = Exn TimeoutError (''Server did not become ready: '' @ message e) (Some e)"

text \<open>
  \<open>wait_for_ready\<close> resolves its timeout and then awaits the probe. The result says after
  how many seconds the call completes, or that it never does.
\<close>

definition wait_for_ready :: "server \<Rightarrow> rat option \<Rightarrow> world \<Rightarrow> ((exn + unit) \<times> world) awaited" where
  "wait_for_ready srv timeout_arg w =
     (let timeout' = (case timeout_arg of None \<Rightarrow> timeout srv | Some t \<Rightarrow> t)
      in case get_client srv of
           Inl e \<Rightarrow> Completes 0 (Inl (timeout_error e), w)
         | Inr c \<Rightarrow>
             (case list_tools c of
                Never \<Rightarrow> Never
              | Completes d (Inl e) \<Rightarrow> Completes d (Inl (timeout_error e), w)
              | Completes d (Inr tools) \<Rightarrow>
                  Completes d (Inr (), log_msg DEBUG ''MCP test server is ready'' w)))"

record factory =
  factory_command :: string
  factory_args :: "string list option"
  factory_env :: "(string \<times> string) list option"
  factory_timeout :: rat
  priv_servers :: "server list"

definition create :: "factory \<Rightarrow> server \<times> factory" where
  "create f =
     (let srv = MCPTestServer (factory_command f) (factory_args f) (factory_env f) (factory_timeout f)
      in (srv, f\<lparr>priv_servers := priv_servers f @ [srv]\<rparr>))"

text \<open>
  The loop of \<open>stop_all\<close>. The servers are objects the caller may still hold, so the loop
  returns each one as the sweep left it.
\<close>

fun stop_each :: "server list \<Rightarrow> world \<Rightarrow> server list \<times> world" where
  "stop_each [] w = ([], w)"
| "stop_each (srv # rest) w =
     (case stop srv w of
        (Inr u, srv', w') \<Rightarrow>
          (let (rest', w'') = stop_each rest w' in (srv' # rest', w''))
      | (Inl e, srv', w') \<Rightarrow>
          (let (rest', w'') =
                 stop_each rest (log_msg WARNING (''Error stopping server: '' @ message e) w')
           in (srv' # rest', w'')))"

definition stop_all :: "factory \<Rightarrow> world \<Rightarrow> server list \<times> factory \<times> world" where
  "stop_all f w =
     (let (stopped, w') = stop_each (priv_servers f) w
      in (stopped, f\<lparr>priv_servers := []\<rparr>, w'))"

text \<open>The resources a server still holds open: the exit stack of its client, top first.\<close>

definition open_handles :: "server \<Rightarrow> handle list" where
  "open_handles srv =
     (case priv_client srv of
        None \<Rightarrow> []
      | Some c \<Rightarrow> (case priv_exit_stack c of None \<Rightarrow> [] | Some stack \<Rightarrow> map ctx_handle stack))"

section \<open>Assertion helpers (assertions.py)\<close>

text \<open>Python's \<open>sub in s\<close> on strings.\<close>

fun startswith :: "string \<Rightarrow> string \<Rightarrow> bool" where
  "startswith s [] = True"
| "startswith [] (p # ps) = False"
| "startswith (c # s) (p # ps) = (c = p \<and> startswith s ps)"

fun str_contains :: "string \<Rightarrow> string \<Rightarrow> bool" where
  "str_contains [] sub = (sub = [])"
| "str_contains (c # s) sub = (startswith (c # s) sub \<or> str_contains s sub)"

definition truthy :: "string option \<Rightarrow> bool" where
  "truthy s = (case s of None \<Rightarrow> False | Some t \<Rightarrow> t \<noteq> [])"

definition expected_error_but_succeeded :: "string \<Rightarrow> exn" where
  "expected_error_but_succeeded tool_name =
     Exn AssertionError
       (''Tool '' @ quoted tool_name @ '' was expected to raise an error but succeeded'') None"

definition message_mismatch :: "string \<Rightarrow> string \<Rightarrow> exn \<Rightarrow> exn" where
  "message_mismatch tool_name error_message e =
     Exn AssertionError
       (''Tool '' @ quoted tool_name @ '' raised error but message doesn't match.'' @ [CHR 0x0A] @
        ''Expected substring: '' @ error_message @ [CHR 0x0A] @
        ''Actual error: '' @ message e) (Some e)"

definition assert_tool_returns_error ::
  "client \<Rightarrow> string \<Rightarrow> (string \<times> json) list option \<Rightarrow> string option \<Rightarrow> world
     \<Rightarrow> (exn + exn) \<times> world" where
  "assert_tool_returns_error c tool_name arguments error_message w =
     (case call_tool c tool_name arguments w of
        (Inr result, w') \<Rightarrow> (Inl (expected_error_but_succeeded tool_name), w')
      | (Inl e, w') \<Rightarrow>
          if kind e = AssertionError then (Inl e, w')
          else if truthy error_message \<and> \<not> str_contains (message e) (the error_message)
          then (Inl (message_mismatch tool_name (the error_message) e), w')
          else (Inr e, w'))"

section \<open>json.dumps and json.loads, as the snapshot helper calls them\<close>

text \<open>
  \<open>json.dumps(value, indent=2, sort_keys=True)\<close>: integers in decimal, the float constants
  by their names (\<open>allow_nan\<close> is left on), strings between
  double quotes with everything outside the printable ASCII range escaped, containers one
  item per line, indented two spaces per level, dictionary items sorted by key.
\<close>

definition digit_char :: "nat \<Rightarrow> char" where
  "digit_char n = char_of (48 + n)"

function decimal :: "nat \<Rightarrow> string" where
  "decimal n = (if n < 10 then [digit_char n] else decimal (n div 10) @ [digit_char (n mod 10)])"
  by pat_completeness auto
termination
  by (relation "measure id") auto

definition encode_int :: "int \<Rightarrow> string" where
  "encode_int i = (if i < 0 then CHR ''-'' # decimal (nat (- i)) else decimal (nat i))"

definition hex_digit :: "nat \<Rightarrow> char" where
  "hex_digit n = (if n < 10 then char_of (48 + n) else char_of (87 + n))"

definition escape_char :: "char \<Rightarrow> string" where
  "escape_char c =
     (let n = (of_char c :: nat) in
      if n = 0x22 then [CHR 0x5C, CHR 0x22]
      else if n = 0x5C then [CHR 0x5C, CHR 0x5C]
      else if n = 0x0A then [CHR 0x5C, CHR ''n'']
      else if n = 0x0D then [CHR 0x5C, CHR ''r'']
      else if n = 0x09 then [CHR 0x5C, CHR ''t'']
      else if n = 0x08 then [CHR 0x5C, CHR ''b'']
      else if n = 0x0C then [CHR 0x5C, CHR ''f'']
      else if n < 0x20 \<or> 0x7E < n
      then [CHR 0x5C, CHR ''u'', CHR ''0'', CHR ''0'', hex_digit (n div 16), hex_digit (n mod 16)]
      else [c])"

definition encode_str :: "string \<Rightarrow> string" where
  "encode_str s = CHR 0x22 # concat (map escape_char s) @ [CHR 0x22]"

definition newline_indent :: "nat \<Rightarrow> string" where
  "newline_indent lvl = CHR 0x0A # replicate (2 * lvl) CHR '' ''"

fun encode :: "nat \<Rightarrow> json \<Rightarrow> string" where
  "encode lvl JNull = ''null''"
| "encode lvl (JBool b) = (if b then ''true'' else ''false'')"
| "encode lvl (JInt i) = encode_int i"
| "encode lvl (JFloat f) =
     (case f of NaN \<Rightarrow> ''NaN'' | PosInf \<Rightarrow> ''Infinity'' | NegInf \<Rightarrow> ''-Infinity'')"
| "encode lvl (JStr s) = encode_str s"
| "encode lvl (JArr xs) =
     (if xs = [] then ''[]''
      else ''['' @ newline_indent (Suc lvl) @
           join ('','' @ newline_indent (Suc lvl)) (map (encode (Suc lvl)) xs) @
           newline_indent lvl @ '']'')"
| "encode lvl (JObj kvs) =
     (if kvs = [] then ''{}''
      else ''{'' @ newline_indent (Suc lvl) @
           join ('','' @ newline_indent (Suc lvl))
             (map (\<lambda>(k, v). encode_str k @ '': '' @ encode (Suc lvl) v) (sort_key fst kvs)) @
           newline_indent lvl @ ''}'')"

definition json_dumps :: "json \<Rightarrow> string" where
  "json_dumps v = encode 0 v"

text \<open>
  \<open>json.loads\<close>, as a tokenizer followed by a parser with an explicit stack. A scan ends
  with its result, with malformed input (Python raises \<open>JSONDecodeError\<close>), or outside the
  embedding: a numeral with a fraction or an exponent, or an escape for a code point
  above 255.
\<close>

datatype token =
    LBrace | RBrace | LBracket | RBracket | Comma | Colon
  | TStr string | TInt int | TFloat pyfloat | TTrue | TFalse | TNull

datatype 'a scan = Scanned 'a | Malformed | Unmodelled

definition is_digit :: "char \<Rightarrow> bool" where
  "is_digit c = (48 \<le> (of_char c :: nat) \<and> (of_char c :: nat) \<le> 57)"

definition digit_val :: "char \<Rightarrow> nat" where
  "digit_val c = of_char c - 48"

definition decimal_value :: "string \<Rightarrow> nat" where
  "decimal_value ds = foldl (\<lambda>acc c. 10 * acc + digit_val c) 0 ds"

definition hex_val :: "char \<Rightarrow> nat option" where
  "hex_val c =
     (let n = (of_char c :: nat) in
      if 48 \<le> n \<and> n \<le> 57 then Some (n - 48)
      else if 97 \<le> n \<and> n \<le> 102 then Some (n - 87)
      else if 65 \<le> n \<and> n \<le> 70 then Some (n - 55)
      else None)"

definition hex4 :: "char \<Rightarrow> char \<Rightarrow> char \<Rightarrow> char \<Rightarrow> nat option" where
  "hex4 a b c d =
     (case (hex_val a, hex_val b, hex_val c, hex_val d) of
        (Some w, Some x, Some y, Some z) \<Rightarrow> Some (4096 * w + 256 * x + 16 * y + z)
      | _ \<Rightarrow> None)"

definition unescape :: "char \<Rightarrow> char option" where
  "unescape e =
     (if e = CHR 0x22 then Some (CHR 0x22)
      else if e = CHR 0x5C then Some (CHR 0x5C)
      else if e = CHR ''/'' then Some (CHR ''/'')
      else if e = CHR ''b'' then Some (CHR 0x08)
      else if e = CHR ''f'' then Some (CHR 0x0C)
      else if e = CHR ''n'' then Some (CHR 0x0A)
      else if e = CHR ''r'' then Some (CHR 0x0D)
      else if e = CHR ''t'' then Some (CHR 0x09)
      else None)"

definition push_char :: "char \<Rightarrow> nat \<Rightarrow> (string \<times> nat) scan \<Rightarrow> (string \<times> nat) scan" where
  "push_char ch k r =
     (case r of
        Scanned (s, n) \<Rightarrow> Scanned (ch # s, n + k)
      | Malformed \<Rightarrow> Malformed
      | Unmodelled \<Rightarrow> Unmodelled)"

text \<open>
  The body of a string, read after its opening quote: the decoded text and the number of
  characters consumed, the closing quote included.
\<close>

fun scan_string :: "string \<Rightarrow> (string \<times> nat) scan" where
  "scan_string [] = Malformed"
| "scan_string (c # cs) =
     (if c = CHR 0x22 then Scanned ([], 1)
      else if c = CHR 0x5C then
        (case cs of
           [] \<Rightarrow> Malformed
         | e # cs1 \<Rightarrow>
             if e = CHR ''u'' then
               (case cs1 of
                  h1 # h2 # h3 # h4 # cs2 \<Rightarrow>
                    (case hex4 h1 h2 h3 h4 of
                       None \<Rightarrow> Malformed
                     | Some n \<Rightarrow>
                         if n < 256 then push_char (char_of n) 6 (scan_string cs2)
                         else Unmodelled)
                | _ \<Rightarrow> Malformed)
             else
               (case unescape e of
                  None \<Rightarrow> Malformed
                | Some ch \<Rightarrow> push_char ch 2 (scan_string cs1)))
      else if (of_char c :: nat) < 0x20 then Malformed
      else push_char c 1 (scan_string cs))"

definition emit :: "token \<Rightarrow> token list scan \<Rightarrow> token list scan" where
  "emit t r =
     (case r of
        Scanned ts \<Rightarrow> Scanned (t # ts)
      | Malformed \<Rightarrow> Malformed
      | Unmodelled \<Rightarrow> Unmodelled)"

definition is_space :: "char \<Rightarrow> bool" where
  "is_space c = (c = CHR '' '' \<or> c = CHR 0x09 \<or> c = CHR 0x0A \<or> c = CHR 0x0D)"

text \<open>The digits of an integer part after its first digit: none after a leading zero.\<close>

definition int_tail :: "char \<Rightarrow> string \<Rightarrow> string" where
  "int_tail d cs = (if d = CHR ''0'' then [] else takeWhile is_digit cs)"

text \<open>Whether a fraction or an exponent follows, which makes the numeral a float.\<close>

definition float_follows :: "string \<Rightarrow> bool" where
  "float_follows r =
     (case r of
        c # d # r' \<Rightarrow>
          (c = CHR ''.'' \<and> is_digit d) \<or>
          ((c = CHR ''e'' \<or> c = CHR ''E'') \<and>
             (is_digit d \<or>
              ((d = CHR ''+'' \<or> d = CHR ''-'') \<and> (case r' of x # r'' \<Rightarrow> is_digit x | [] \<Rightarrow> False))))
      | _ \<Rightarrow> False)"

fun tokenize :: "string \<Rightarrow> token list scan" where
  "tokenize [] = Scanned []"
| "tokenize (c # cs) =
     (if is_space c then tokenize cs
      else if c = CHR ''{'' then emit LBrace (tokenize cs)
      else if c = CHR ''}'' then emit RBrace (tokenize cs)
      else if c = CHR ''['' then emit LBracket (tokenize cs)
      else if c = CHR '']'' then emit RBracket (tokenize cs)
      else if c = CHR '','' then emit Comma (tokenize cs)
      else if c = CHR '':'' then emit Colon (tokenize cs)
      else if c = CHR 0x22 then
        (case scan_string cs of
           Scanned (s, n) \<Rightarrow> emit (TStr s) (tokenize (drop n cs))
         | Malformed \<Rightarrow> Malformed
         | Unmodelled \<Rightarrow> Unmodelled)
      else if is_digit c then
        (let ds = int_tail c cs; r = drop (length ds) cs
         in if float_follows r then Unmodelled
            else emit (TInt (int (decimal_value (c # ds)))) (tokenize r))
      else if c = CHR ''-'' then
        (case cs of
           [] \<Rightarrow> Malformed
         | d # cs1 \<Rightarrow>
             if is_digit d then
               (let ds = int_tail d cs1; r = drop (length ds) cs1
                in if float_follows r then Unmodelled
                   else emit (TInt (- int (decimal_value (d # ds)))) (tokenize r))
             else if startswith cs ''Infinity'' then emit (TFloat NegInf) (tokenize (drop 7 cs1))
             else Malformed)
      else if startswith (c # cs) ''null'' then emit TNull (tokenize (drop 3 cs))
      else if startswith (c # cs) ''true'' then emit TTrue (tokenize (drop 3 cs))
      else if startswith (c # cs) ''false'' then emit TFalse (tokenize (drop 4 cs))
      else if startswith (c # cs) ''NaN'' then emit (TFloat NaN) (tokenize (drop 2 cs))
      else if startswith (c # cs) ''Infinity'' then emit (TFloat PosInf) (tokenize (drop 7 cs))
      else Malformed)"

text \<open>
  A dictionary built from pairs in order: a repeated key keeps its first position and
  takes the last value.
\<close>

definition dict_of :: "(string \<times> json) list \<Rightarrow> (string \<times> json) list" where
  "dict_of pairs = foldl (\<lambda>d (k, v). AList.update k v d) [] pairs"

text \<open>
  The parser keeps a stack of the containers that are open: an array with its elements so
  far, an object between two members, or an object whose next value belongs to the key
  just read. Elements and members are kept last first.
\<close>

datatype frame =
    ArrF "json list"
  | ObjW "(string \<times> json) list"
  | ObjK "(string \<times> json) list" string

datatype pstate = SValue | SFirstElem | SFirstKey | SKey | SColon | SAfter | SDone json

fun complete :: "json \<Rightarrow> frame list \<Rightarrow> (pstate \<times> frame list) option" where
  "complete v [] = Some (SDone v, [])"
| "complete v (ArrF acc # st) = Some (SAfter, ArrF (v # acc) # st)"
| "complete v (ObjK acc k # st) = Some (SAfter, ObjW ((k, v) # acc) # st)"
| "complete v (ObjW acc # st) = None"

definition scalar :: "token \<Rightarrow> json option" where
  "scalar t =
     (case t of
        TStr s \<Rightarrow> Some (JStr s)
      | TInt i \<Rightarrow> Some (JInt i)
      | TFloat f \<Rightarrow> Some (JFloat f)
      | TTrue \<Rightarrow> Some (JBool True)
      | TFalse \<Rightarrow> Some (JBool False)
      | TNull \<Rightarrow> Some JNull
      | _ \<Rightarrow> None)"

definition begin_value :: "token \<Rightarrow> frame list \<Rightarrow> (pstate \<times> frame list) option" where
  "begin_value t st =
     (if t = LBracket then Some (SFirstElem, ArrF [] # st)
      else if t = LBrace then Some (SFirstKey, ObjW [] # st)
      else (case scalar t of Some v \<Rightarrow> complete v st | None \<Rightarrow> None))"

fun step :: "pstate \<Rightarrow> frame list \<Rightarrow> token \<Rightarrow> (pstate \<times> frame list) option" where
  "step SValue st t = begin_value t st"
| "step SFirstElem st t =
     (if t = RBracket then (case st of ArrF acc # st' \<Rightarrow> complete (JArr []) st' | _ \<Rightarrow> None)
      else begin_value t st)"
| "step SFirstKey st t =
     (case (t, st) of
        (RBrace, ObjW acc # st') \<Rightarrow> complete (JObj []) st'
      | (TStr k, ObjW acc # st') \<Rightarrow> Some (SColon, ObjK acc k # st')
      | _ \<Rightarrow> None)"
| "step SKey st t =
     (case (t, st) of
        (TStr k, ObjW acc # st') \<Rightarrow> Some (SColon, ObjK acc k # st')
      | _ \<Rightarrow> None)"
| "step SColon st t = (if t = Colon then Some (SValue, st) else None)"
| "step SAfter st t =
     (case (t, st) of
        (Comma, ArrF acc # st') \<Rightarrow> Some (SValue, st)
      | (Comma, ObjW acc # st') \<Rightarrow> Some (SKey, st)
      | (RBracket, ArrF acc # st') \<Rightarrow> complete (JArr (rev acc)) st'
      | (RBrace, ObjW acc # st') \<Rightarrow> complete (JObj (dict_of (rev acc))) st'
      | _ \<Rightarrow> None)"
| "step (SDone v) st t = None"

fun run :: "(pstate \<times> frame list) option \<Rightarrow> token list \<Rightarrow> json option" where
  "run None ts = None"
| "run (Some (SDone v, st)) [] = Some v"
| "run (Some (s, st)) [] = None"
| "run (Some (s, st)) (t # ts) = run (step s st t) ts"

definition parse :: "token list \<Rightarrow> json option" where
  "parse ts = run (Some (SValue, [])) ts"

definition decode_error :: exn where
  "decode_error = Exn JSONDecodeError ''the text is not a JSON document'' None"

text \<open>
  The result of \<open>json.loads\<close>: the value, or the exception raised; \<open>None\<close> when the text
  leaves the embedding.
\<close>

definition json_loads :: "string \<Rightarrow> (exn + json) option" where
  "json_loads s =
     (case tokenize s of
        Unmodelled \<Rightarrow> None
      | Malformed \<Rightarrow> Some (Inl decode_error)
      | Scanned ts \<Rightarrow>
          (case parse ts of None \<Rightarrow> Some (Inl decode_error) | Some v \<Rightarrow> Some (Inr v)))"

text \<open>
  Python's \<open>==\<close> on decoded data: deep, with dictionaries compared as mappings whatever the
  order of their items, with \<open>True == 1\<close> and \<open>False == 0\<close>, and with \<open>NaN\<close> equal to
  nothing. The items of lists and dictionaries are compared by \<open>x is y or x == y\<close>; among
  decoded data identity decides only for \<open>NaN\<close>, which the decoder always yields as the
  one object \<open>json.decoder.NaN\<close>.
\<close>

definition same_nan :: "json \<Rightarrow> json \<Rightarrow> bool" where
  "same_nan x y = (x = JFloat NaN \<and> y = JFloat NaN)"

fun py_eq :: "json \<Rightarrow> json \<Rightarrow> bool"
  and py_eq_list :: "json list \<Rightarrow> json list \<Rightarrow> bool"
  and py_eq_items :: "(string \<times> json) list \<Rightarrow> (string \<times> json) list \<Rightarrow> bool" where
  "py_eq JNull y = (y = JNull)"
| "py_eq (JBool a) y =
     (case y of JBool b \<Rightarrow> a = b | JInt i \<Rightarrow> i = (if a then 1 else 0) | _ \<Rightarrow> False)"
| "py_eq (JInt i) y =
     (case y of JInt j \<Rightarrow> i = j | JBool b \<Rightarrow> i = (if b then 1 else 0) | _ \<Rightarrow> False)"
| "py_eq (JFloat f) y = (case y of JFloat g \<Rightarrow> f = g \<and> f \<noteq> NaN | _ \<Rightarrow> False)"
| "py_eq (JStr s) y = (y = JStr s)"
| "py_eq (JArr xs) y = (case y of JArr ys \<Rightarrow> py_eq_list xs ys | _ \<Rightarrow> False)"
| "py_eq (JObj a) y =
     (case y of JObj b \<Rightarrow> length a = length b \<and> py_eq_items a b | _ \<Rightarrow> False)"
| "py_eq_list [] ys = (ys = [])"
| "py_eq_list (x # xs) ys =
     (case ys of [] \<Rightarrow> False | y # ys' \<Rightarrow> (same_nan x y \<or> py_eq x y) \<and> py_eq_list xs ys')"
| "py_eq_items [] b = True"
| "py_eq_items ((k, x) # a) b =
     ((case map_of b k of None \<Rightarrow> False | Some y \<Rightarrow> same_nan x y \<or> py_eq x y) \<and>
      py_eq_items a b)"


section \<open>SnapshotHelper (snapshot.py)\<close>

text \<open>
  A value handed to the helper is plain JSON data, or an object that may expose
  \<open>model_dump()\<close> and \<open>dict()\<close> and has a \<open>str()\<close>. The snapshot directory is a finite map
  from file names to texts, kept as an association list; a snapshot name is taken to be a
  single path component, and a test name to be free of glob metacharacters.
\<close>

datatype pyvalue =
    Plain json
  | Object (model_dump: "json option") (dict_attr: "json option") (str_of: string)

type_synonym directory = "(string \<times> string) list"

record snapshot_helper =
  node_name :: string
  update_snapshots :: bool

datatype outcome = Returns | Skips string | Raises exn

definition test_name :: "snapshot_helper \<Rightarrow> string" where
  "test_name h = takeWhile (\<lambda>c. c \<noteq> CHR ''['') (node_name h)"

definition get_snapshot_path :: "snapshot_helper \<Rightarrow> string \<Rightarrow> string" where
  "get_snapshot_path h snapshot_name = test_name h @ ''__'' @ snapshot_name @ ''.json''"

definition serialize :: "pyvalue \<Rightarrow> string" where
  "serialize v =
     (case v of
        Plain j \<Rightarrow> json_dumps j
      | Object md d s \<Rightarrow>
          (case md of
             Some j \<Rightarrow> json_dumps j
           | None \<Rightarrow> (case d of Some j \<Rightarrow> json_dumps j | None \<Rightarrow> json_dumps (JStr s))))"

definition deserialize :: "string \<Rightarrow> (exn + json) option" where
  "deserialize json_str = json_loads json_str"

text \<open>pathlib: the suffix of a file name, its stem, and \<open>with_suffix\<close>.\<close>

definition rfind_dot :: "string \<Rightarrow> nat option" where
  "rfind_dot name =
     (if CHR ''.'' \<in> set name
      then Some (length name - 1 - length (takeWhile (\<lambda>c. c \<noteq> CHR ''.'') (rev name)))
      else None)"

definition path_suffix :: "string \<Rightarrow> string" where
  "path_suffix name =
     (case rfind_dot name of
        None \<Rightarrow> []
      | Some i \<Rightarrow> if 0 < i \<and> i < length name - 1 then drop i name else [])"

definition path_stem :: "string \<Rightarrow> string" where
  "path_stem name = take (length name - length (path_suffix name)) name"

definition with_suffix :: "string \<Rightarrow> string \<Rightarrow> string" where
  "with_suffix name sfx = path_stem name @ sfx"

definition text_snapshot_path :: "snapshot_helper \<Rightarrow> string \<Rightarrow> string" where
  "text_snapshot_path h snapshot_name = with_suffix (get_snapshot_path h snapshot_name) ''.txt''"

text \<open>
  \<open>Path.read_text\<close>: the text of a file, or \<open>FileNotFoundError\<close>. A text is read back as
  \<open>write_text\<close> stored it; the translation of carriage returns in a file that was written
  by other means is not part of the model.
\<close>

definition read_text :: "directory \<Rightarrow> string \<Rightarrow> exn + string" where
  "read_text dir path =
     (case map_of dir path of
        None \<Rightarrow> Inl (Exn FileNotFoundError path None)
      | Some t \<Rightarrow> Inr t)"

definition should_update :: "snapshot_helper \<Rightarrow> bool option \<Rightarrow> bool" where
  "should_update h update = (case update of Some u \<Rightarrow> u | None \<Rightarrow> update_snapshots h)"

definition snapshot_mismatch :: "string \<Rightarrow> string \<Rightarrow> string \<Rightarrow> exn" where
  "snapshot_mismatch snapshot_name expected_json actual_json =
     Exn AssertionError
       (''Snapshot mismatch for '' @ quoted snapshot_name @ ''.'' @ [CHR 0x0A] @
        ''Expected:'' @ [CHR 0x0A] @ expected_json @ [CHR 0x0A, CHR 0x0A] @
        ''Actual:'' @ [CHR 0x0A] @ actual_json @ [CHR 0x0A, CHR 0x0A] @
        ''To update snapshots, run with --mcp-update-snapshots'') None"

definition assert_match ::
  "snapshot_helper \<Rightarrow> pyvalue \<Rightarrow> string \<Rightarrow> bool option \<Rightarrow> directory \<Rightarrow> (outcome \<times> directory) option" where
  "assert_match h v snapshot_name update dir =
     (let snapshot_path = get_snapshot_path h snapshot_name;
          actual_json = serialize v
      in if should_update h update \<or> map_of dir snapshot_path = None then
           (let dir' = AList.update snapshot_path actual_json dir
            in if should_update h update
               then Some (Skips (''Updated snapshot: '' @ snapshot_name), dir')
               else Some (Returns, dir'))
         else
           (case read_text dir snapshot_path of
              Inl e \<Rightarrow> Some (Raises e, dir)
            | Inr expected_json \<Rightarrow>
                (case deserialize expected_json of
                   None \<Rightarrow> None
                 | Some (Inl e) \<Rightarrow> Some (Raises e, dir)
                 | Some (Inr expected) \<Rightarrow>
                     (case deserialize actual_json of
                        None \<Rightarrow> None
                      | Some (Inl e) \<Rightarrow> Some (Raises e, dir)
                      | Some (Inr actual) \<Rightarrow>
                          if \<not> py_eq actual expected
                          then Some (Raises (snapshot_mismatch snapshot_name expected_json actual_json), dir)
                          else Some (Returns, dir)))))"

definition assert_match_json ::
  "snapshot_helper \<Rightarrow> json \<Rightarrow> string \<Rightarrow> bool option \<Rightarrow> directory \<Rightarrow> (outcome \<times> directory) option" where
  "assert_match_json h v snapshot_name update dir = assert_match h (Plain v) snapshot_name update dir"

definition text_snapshot_mismatch :: "string \<Rightarrow> string \<Rightarrow> string \<Rightarrow> exn" where
  "text_snapshot_mismatch snapshot_name expected_text actual_text =
     Exn AssertionError
       (''Text snapshot mismatch for '' @ quoted snapshot_name @ ''.'' @ [CHR 0x0A] @
        ''Expected:'' @ [CHR 0x0A] @ expected_text @ [CHR 0x0A, CHR 0x0A] @
        ''Actual:'' @ [CHR 0x0A] @ actual_text @ [CHR 0x0A, CHR 0x0A] @
        ''To update snapshots, run with --mcp-update-snapshots'') None"

definition assert_match_text ::
  "snapshot_helper \<Rightarrow> string \<Rightarrow> string \<Rightarrow> bool option \<Rightarrow> directory \<Rightarrow> outcome \<times> directory" where
  "assert_match_text h txt snapshot_name update dir =
     (let snapshot_path = text_snapshot_path h snapshot_name
      in if should_update h update \<or> map_of dir snapshot_path = None then
           (let dir' = AList.update snapshot_path txt dir
            in if should_update h update
               then (Skips (''Updated snapshot: '' @ snapshot_name), dir')
               else (Returns, dir'))
         else
           (case read_text dir snapshot_path of
              Inl e \<Rightarrow> (Raises e, dir)
            | Inr expected_text \<Rightarrow>
                if txt \<noteq> expected_text
                then (Raises (text_snapshot_mismatch snapshot_name expected_text txt), dir)
                else (Returns, dir)))"

text \<open>
  \<open>get_snapshot\<close> yields the decoded record, \<open>None\<close> for a record that does not exist, or
  the exception of the decoder.
\<close>

definition get_snapshot :: "snapshot_helper \<Rightarrow> string \<Rightarrow> directory \<Rightarrow> (exn + json option) option" where
  "get_snapshot h snapshot_name dir =
     (case map_of dir (get_snapshot_path h snapshot_name) of
        None \<Rightarrow> Some (Inr None)
      | Some json_str \<Rightarrow>
          (case deserialize json_str of
             None \<Rightarrow> None
           | Some (Inl e) \<Rightarrow> Some (Inl e)
           | Some (Inr v) \<Rightarrow> Some (Inr (Some v))))"

definition delete_snapshot :: "snapshot_helper \<Rightarrow> string \<Rightarrow> directory \<Rightarrow> directory" where
  "delete_snapshot h snapshot_name dir =
     (let snapshot_path = get_snapshot_path h snapshot_name
      in if map_of dir snapshot_path \<noteq> None then AList.delete snapshot_path dir else dir)"

definition endswith :: "string \<Rightarrow> string \<Rightarrow> bool" where
  "endswith s sfx = startswith (rev s) (rev sfx)"

text \<open>The glob pattern \<open>{test_name}__*.json\<close> over the names of the directory.\<close>

definition glob_match :: "snapshot_helper \<Rightarrow> string \<Rightarrow> bool" where
  "glob_match h fname =
     (startswith fname (test_name h @ ''__'') \<and> endswith fname ''.json'' \<and>
      length (test_name h @ ''__'') + length ''.json'' \<le> length fname)"

text \<open>\<open>s.replace(old, "")\<close> for a non-empty \<open>old\<close>.\<close>

fun remove_all :: "string \<Rightarrow> string \<Rightarrow> string" where
  "remove_all old [] = []"
| "remove_all old (c # cs) =
     (if old \<noteq> [] \<and> startswith (c # cs) old then remove_all old (drop (length old - 1) cs)
      else c # remove_all old cs)"

definition list_snapshots :: "snapshot_helper \<Rightarrow> directory \<Rightarrow> string list" where
  "list_snapshots h dir =
     sort (map (\<lambda>fname. remove_all (test_name h @ ''__'') (path_stem fname))
             (filter (glob_match h) (map fst dir)))"


section \<open>Concrete servers and sessions used as witnesses\<close>

definition params0 :: server_params where
  "params0 = \<lparr>sp_command = ''python'', sp_args = [''server.py''], sp_env = []\<rparr>"

definition world0 :: world where
  "world0 = \<lparr>logged = [], acquired = [], released = []\<rparr>"

definition clean_exit :: "handle \<Rightarrow> ctx" where
  "clean_exit h = \<lparr>ctx_handle = h, aexit = (\<lambda>pending. Inr False)\<rparr>"

definition raising_exit :: "handle \<Rightarrow> exn \<Rightarrow> ctx" where
  "raising_exit h e = \<lparr>ctx_handle = h, aexit = (\<lambda>pending. Inl e)\<rparr>"

definition handshake_failed :: exn where
  "handshake_failed = Exn OtherError ''handshake failed'' None"

definition exit_failed :: exn where
  "exit_failed = Exn RuntimeError ''exit failed'' None"

definition failing_session :: session where
  "failing_session =
     \<lparr>initialize = Some handshake_failed, session_list_tools = Never,
      session_call_tool = (\<lambda>name arguments. Inr [])\<rparr>"

definition leaky_sdk :: sdk where
  "leaky_sdk =
     \<lparr>stdio_client = (\<lambda>params. Inr ((0, 1), clean_exit Transport)),
      ClientSession = (\<lambda>read write. Inr (failing_session, raising_exit Handshake exit_failed))\<rparr>"

definition tidy_sdk :: sdk where
  "tidy_sdk =
     \<lparr>stdio_client = (\<lambda>params. Inr ((0, 1), clean_exit Transport)),
      ClientSession = (\<lambda>read write. Inr (failing_session, clean_exit Handshake))\<rparr>"

definition ready_session :: "(exn + tool list) awaited \<Rightarrow> session" where
  "ready_session probe =
     \<lparr>initialize = None, session_list_tools = probe,
      session_call_tool = (\<lambda>name arguments.
         if name = ''get_user'' then Inl (Exn OtherError ''User not found: 999'' None)
         else if name = ''check'' then Inl (Exn AssertionError ''User not found: 999'' None)
         else Inr [TextContent ''8''])\<rparr>"

definition connected_client :: "session \<Rightarrow> ctx list \<Rightarrow> client" where
  "connected_client s stack =
     \<lparr>priv_server_params = params0, priv_session = Some s, priv_read_stream = Some 0,
      priv_write_stream = Some 1, priv_exit_stack = Some stack\<rparr>"

definition running_server :: "client \<Rightarrow> server" where
  "running_server c = (MCPTestServer ''python'' (Some [''server.py'']) None 30)\<lparr>priv_client := Some c\<rparr>"

definition good_sdk :: sdk where
  "good_sdk =
     \<lparr>stdio_client = (\<lambda>params. Inr ((0, 1), clean_exit Transport)),
      ClientSession = (\<lambda>read write. Inr (ready_session (Completes 0 (Inr [])), clean_exit Handshake))\<rparr>"

definition broken_client :: client where
  "broken_client =
     connected_client (ready_session (Completes 0 (Inr [])))
       [raising_exit Handshake exit_failed, clean_exit Transport]"

definition user_client :: client where
  "user_client = connected_client (ready_session (Completes 0 (Inr []))) []"

definition user_test :: snapshot_helper where
  "user_test = \<lparr>node_name = ''test_user[1-a]'', update_snapshots = False\<rparr>"

definition a1 :: pyvalue where "a1 = Plain (JObj [(''a'', JInt 1)])"

definition a2 :: pyvalue where "a2 = Plain (JObj [(''a'', JInt 2)])"

section \<open>Vocabulary of the round trip through the serializer\<close>

text \<open>
  What the decoder makes of the text of a value: the same value, with every dictionary
  rebuilt from its items in the order of their keys.
\<close>

fun decoded_form :: "json \<Rightarrow> json" where
  "decoded_form (JArr xs) = JArr (map decoded_form xs)"
| "decoded_form (JObj kvs) =
     JObj (dict_of (map (\<lambda>(k, v). (k, decoded_form v)) (sort_key fst kvs)))"
| "decoded_form v = v"

fun commas :: "token list list \<Rightarrow> token list" where
  "commas [] = []"
| "commas [x] = x"
| "commas (x # y # ys) = x @ Comma # commas (y # ys)"

fun tokens :: "json \<Rightarrow> token list" where
  "tokens JNull = [TNull]"
| "tokens (JBool b) = [if b then TTrue else TFalse]"
| "tokens (JInt i) = [TInt i]"
| "tokens (JFloat f) = [TFloat f]"
| "tokens (JStr s) = [TStr s]"
| "tokens (JArr xs) = LBracket # commas (map tokens xs) @ [RBracket]"
| "tokens (JObj kvs) =
     LBrace # commas (map (\<lambda>(k, v). TStr k # Colon # tokens v) (sort_key fst kvs)) @ [RBrace]"

definition value_run :: "json \<Rightarrow> bool" where
  "value_run v = (\<forall>s st rest. s = SValue \<or> s = SFirstElem \<longrightarrow>
      run (Some (s, st)) (tokens v @ rest) = run (complete (decoded_form v) st) rest)"

text \<open>A text that may follow a value in the output of the encoder: it starts no digit, fraction or exponent.\<close>

definition safe :: "string \<Rightarrow> bool" where
  "safe r = (case r of [] \<Rightarrow> True | c # cs \<Rightarrow> c = CHR '','' \<or> c = CHR 0x0A)"

definition emit_all :: "token list \<Rightarrow> token list scan \<Rightarrow> token list scan" where
  "emit_all ts r = foldr emit ts r"

definition tokenizes :: "json \<Rightarrow> bool" where
  "tokenizes v = (\<forall>lvl r. safe r \<longrightarrow> tokenize (encode lvl v @ r) = emit_all (tokens v) (tokenize r))"




text \<open>The data that \<open>serialize\<close> hands to \<open>json.dumps\<close>.\<close>

definition plain_data :: "pyvalue \<Rightarrow> json" where
  "plain_data v =
     (case v of
        Plain j \<Rightarrow> j
      | Object md d s \<Rightarrow>
          (case md of Some j \<Rightarrow> j | None \<Rightarrow> (case d of Some j \<Rightarrow> j | None \<Rightarrow> JStr s)))"

section \<open>Properties of the exit stack\<close>

lemma exit_callbacks_released:
  "released (snd (exit_callbacks stack pending w)) = released w @ map ctx_handle stack"
  by (induction stack arbitrary: pending w) (auto simp: Let_def split: sum.splits)

section \<open>Failure during connect\<close>

text \<open>
  Claim C1 does not hold of the code: the handler of \<open>connect\<close> closes the exit stack
  before it resets the fields and wraps the failure, with nothing guarding the close. When
  the handshake fails and the exit of the session raises in its turn, \<open>connect\<close> lets
  that second exception through as it is, no \<open>ConnectionError\<close> is built, and no field is
  reset: the client keeps the session and both streams over an emptied exit stack and
  reports itself connected, so that a second \<open>connect\<close> only logs that the client is
  already connected and returns.
\<close>

theorem connect_release_failure_leaks_session:
  "connect_failure leaky_sdk params0 = Some handshake_failed \<and>
   (case connect leaky_sdk (MockMCPClient params0) world0 of (r, c', w') \<Rightarrow>
      r = Inl exit_failed \<and> r \<noteq> Inl (connection_error handshake_failed) \<and>
      released w' = [Handshake, Transport] \<and>
      is_connected c' \<and> priv_session c' = Some failing_session \<and>
      priv_read_stream c' = Some 0 \<and> priv_write_stream c' = Some 1 \<and>
      priv_exit_stack c' = Some [] \<and>
      connect leaky_sdk c' w' = (Inr (), c', log_msg WARNING ''Client is already connected'' w'))"
  by (simp add: connect_def connect_failure_def connect_except_def aclose_def
      enter_async_context_def leaky_sdk_def MockMCPClient_def failing_session_def
      clean_exit_def raising_exit_def world0_def is_connected_def exit_failed_def
      handshake_failed_def connection_error_def Let_def)

text \<open>
  What does hold: on a client that is not connected, a failure during the spawn of the
  transport, the set-up of the streams or the handshake has the exit of every context
  manager entered so far called, in reverse order of entry; and when none of these exits
  raises, the caller observes one \<open>ConnectionError\<close> whose cause is the original exception,
  and session, read stream, write stream and exit stack are all \<open>None\<close> again.
\<close>

lemma connect_failure_cleanup:
  assumes "priv_session c = None"
      and "connect_failure lib (priv_server_params c) = Some e"
  shows "case connect lib c w of (r, c', w') \<Rightarrow>
           acquired w' = acquired w @ map ctx_handle (entered lib (priv_server_params c)) \<and>
           released w' = released w @ rev (map ctx_handle (entered lib (priv_server_params c))) \<and>
           ((\<forall>cm \<in> set (entered lib (priv_server_params c)). \<not> isl (aexit cm None)) \<longrightarrow>
              r = Inl (connection_error e) \<and> priv_session c' = None \<and>
              priv_read_stream c' = None \<and> priv_write_stream c' = None \<and>
              priv_exit_stack c' = None \<and> \<not> is_connected c')"
  using assms
  by (auto simp: connect_def connect_failure_def entered_def connect_except_def aclose_def
      enter_async_context_def log_msg_def Let_def is_connected_def
      split: sum.splits prod.splits option.splits)

lemma connect_failure_cleanup_tidy:
  "priv_session (MockMCPClient params0) = None \<and>
   connect_failure tidy_sdk params0 = Some handshake_failed \<and>
   (case connect tidy_sdk (MockMCPClient params0) world0 of (r, c', w') \<Rightarrow>
      acquired w' = [Transport, Handshake] \<and> released w' = [Handshake, Transport] \<and>
      r = Inl (connection_error handshake_failed) \<and> priv_session c' = None \<and>
      priv_exit_stack c' = None)"
  using connect_failure_cleanup [of "MockMCPClient params0" tidy_sdk handshake_failed world0]
  by (simp add: MockMCPClient_def tidy_sdk_def connect_failure_def entered_def failing_session_def
      clean_exit_def world0_def split: prod.splits)

section \<open>Teardown failures\<close>

lemma aclose_released: "released (snd (aclose stack w)) = released w @ map ctx_handle stack"
  by (simp add: aclose_def exit_callbacks_released)

lemma disconnect_released:
  "released (snd (snd (disconnect c w))) =
     released w @ (case priv_exit_stack c of None \<Rightarrow> [] | Some stack \<Rightarrow> map ctx_handle stack)"
proof (cases "priv_exit_stack c")
  case None
  then show ?thesis by (simp add: disconnect_def log_msg_def)
next
  case (Some stack)
  obtain p w' where a: "aclose stack w = (p, w')" by (cases "aclose stack w") auto
  have r: "released w' = released w @ map ctx_handle stack"
    using aclose_released [of stack w] a by simp
  show ?thesis using Some a r by (cases p) (simp_all add: disconnect_def log_msg_def)
qed

lemma stop_never_raises: "fst (stop srv w) = Inr ()"
  by (simp add: stop_def split: option.split prod.split sum.split)

lemma stop_clears_client: "priv_client (fst (snd (stop srv w))) = None"
  by (simp add: stop_def split: option.split prod.split sum.split)

lemma stop_released: "released (snd (snd (stop srv w))) = released w @ open_handles srv"
proof (cases "priv_client srv")
  case None
  then show ?thesis by (simp add: stop_def open_handles_def)
next
  case (Some c)
  obtain r c' w' where d: "disconnect c w = (r, c', w')" by (cases "disconnect c w") auto
  have "released w' = released w @ open_handles srv"
    using disconnect_released [of c w] d Some by (simp add: open_handles_def)
  then show ?thesis using Some d by (cases r) (simp_all add: stop_def log_msg_def)
qed

lemma stop_each_props:
  "length (fst (stop_each srvs w)) = length srvs \<and>
   (\<forall>s \<in> set (fst (stop_each srvs w)). priv_client s = None) \<and>
   released (snd (stop_each srvs w)) = released w @ concat (map open_handles srvs)"
proof (induction srvs arbitrary: w)
  case Nil
  show ?case by simp
next
  case (Cons srv rest)
  obtain r srv' w' where st: "stop srv w = (r, srv', w')"
    by (cases "stop srv w") auto
  have r: "r = Inr ()" using stop_never_raises [of srv w] st by simp
  have c: "priv_client srv' = None" using stop_clears_client [of srv w] st by simp
  have rel: "released w' = released w @ open_handles srv" using stop_released [of srv w] st by simp
  show ?case using Cons.IH [of w'] st r c rel
    by (auto simp: split: prod.splits)
qed

text \<open>
  Claim C3, as amended. A failure of the client's \<open>disconnect\<close> is logged as a warning and
  swallowed by \<open>MCPTestServer.stop\<close> itself: \<open>stop\<close> always returns normally and always
  drops its client. So the handler of \<open>stop_all\<close> never sees a failure; the sweep empties
  the factory's list, leaves every server without a client and calls the exit of every
  resource the servers held, whatever the individual exits did.
\<close>

theorem stop_swallows_teardown_failures:
  "(case stop srv w of (r, srv', w') \<Rightarrow>
      r = Inr () \<and> priv_client srv' = None \<and>
      (\<forall>c e c1 w1. priv_client srv = Some c \<and> disconnect c w = (Inl e, c1, w1) \<longrightarrow>
         w' = log_msg WARNING (''Error stopping MCP test server: '' @ message e) w1)) \<and>
   (case stop_all f w of (stopped, f', w') \<Rightarrow>
      priv_servers f' = [] \<and> length stopped = length (priv_servers f) \<and>
      (\<forall>s \<in> set stopped. priv_client s = None) \<and>
      released w' = released w @ concat (map open_handles (priv_servers f)))"
proof -
  have a: "case stop srv w of (r, srv', w') \<Rightarrow>
      r = Inr () \<and> priv_client srv' = None \<and>
      (\<forall>c e c1 w1. priv_client srv = Some c \<and> disconnect c w = (Inl e, c1, w1) \<longrightarrow>
         w' = log_msg WARNING (''Error stopping MCP test server: '' @ message e) w1)"
    by (auto simp: stop_def split: option.splits prod.splits sum.splits)
  have b: "case stop_all f w of (stopped, f', w') \<Rightarrow>
      priv_servers f' = [] \<and> length stopped = length (priv_servers f) \<and>
      (\<forall>s \<in> set stopped. priv_client s = None) \<and>
      released w' = released w @ concat (map open_handles (priv_servers f))"
    using stop_each_props [of "priv_servers f" w]
    by (auto simp: stop_all_def split: prod.splits)
  show ?thesis using a b by blast
qed

text \<open>
  The claim as stated fails: \<open>disconnect\<close> raises, and a single \<open>stop\<close> returns normally
  with a warning in the log.
\<close>

theorem stop_propagates_counterexample:
  "fst (disconnect broken_client world0) = Inl exit_failed \<and>
   fst (stop (running_server broken_client) world0) = Inr () \<and>
   fst (stop (running_server broken_client) world0) \<noteq> Inl exit_failed \<and>
   logged (snd (snd (stop (running_server broken_client) world0))) =
     [(WARNING, ''Error stopping MCP test server: exit failed'')]"
  by (simp add: stop_def disconnect_def aclose_def broken_client_def connected_client_def
      running_server_def MCPTestServer_def raising_exit_def clean_exit_def world0_def
      exit_failed_def log_msg_def Let_def)

theorem stop_swallows_teardown_failures_witness:
  "(case stop (running_server broken_client) world0 of (r, srv', w') \<Rightarrow>
      r = Inr () \<and> priv_client srv' = None \<and>
      logged w' = [(WARNING, ''Error stopping MCP test server: exit failed'')]) \<and>
   (case stop_all \<lparr>factory_command = ''python'', factory_args = None, factory_env = None,
                    factory_timeout = 30,
                    priv_servers = [running_server broken_client, running_server broken_client]\<rparr>
           world0 of (stopped, f', w') \<Rightarrow>
      priv_servers f' = [] \<and> length stopped = 2 \<and>
      released w' = [Handshake, Transport, Handshake, Transport])"
  using stop_swallows_teardown_failures [of "running_server broken_client" world0
      "\<lparr>factory_command = ''python'', factory_args = None, factory_env = None,
        factory_timeout = 30,
        priv_servers = [running_server broken_client, running_server broken_client]\<rparr>"]
  by (simp add: stop_def stop_all_def disconnect_def aclose_def broken_client_def connected_client_def
      running_server_def MCPTestServer_def raising_exit_def clean_exit_def world0_def
      exit_failed_def log_msg_def Let_def open_handles_def split: prod.splits)

section \<open>The client a lifecycle manager hands out\<close>

lemma connect_success_connected:
  "priv_session c = None \<Longrightarrow> connect lib c w = (Inr u, c', w') \<Longrightarrow> is_connected c'"
  by (auto simp: connect_def connect_except_def enter_async_context_def is_connected_def Let_def
      split: sum.splits prod.splits option.splits)

lemma get_client_after_stop: "get_client (fst (snd (stop srv w))) = Inl not_started"
  using stop_clears_client [of srv w] by (simp add: get_client_def)

lemma start_unfold:
  "\<exists>w0. start lib srv w =
     (case connect lib (MockMCPClient (server_priv_server_params srv)) w0 of
        (Inr u, c1, w1) \<Rightarrow>
          (Inr (), srv\<lparr>priv_client := Some c1\<rparr>,
           log_msg INFO ''MCP test server started successfully'' w1)
      | (Inl e, c1, w1) \<Rightarrow>
          (case stop (srv\<lparr>priv_client := Some c1\<rparr>)
                  (log_msg ERROR (''Failed to start MCP test server: '' @ message e) w1) of
             (Inl e2, srv', w2) \<Rightarrow> (Inl e2, srv', w2)
           | (Inr u, srv', w2) \<Rightarrow>
               (Inl (Exn RuntimeError (''Could not start MCP server: '' @ message e) (Some e)),
                srv', w2)))"
  unfolding start_def Let_def by (rule exI) (rule refl)

lemma start_ok_running:
  assumes "start lib srv w = (Inr u, srv', w')"
  shows "\<exists>c. get_client srv' = Inr c \<and> is_connected c"
proof -
  obtain w0 where st: "start lib srv w =
     (case connect lib (MockMCPClient (server_priv_server_params srv)) w0 of
        (Inr u, c1, w1) \<Rightarrow>
          (Inr (), srv\<lparr>priv_client := Some c1\<rparr>,
           log_msg INFO ''MCP test server started successfully'' w1)
      | (Inl e, c1, w1) \<Rightarrow>
          (case stop (srv\<lparr>priv_client := Some c1\<rparr>)
                  (log_msg ERROR (''Failed to start MCP test server: '' @ message e) w1) of
             (Inl e2, srv', w2) \<Rightarrow> (Inl e2, srv', w2)
           | (Inr u, srv', w2) \<Rightarrow>
               (Inl (Exn RuntimeError (''Could not start MCP server: '' @ message e) (Some e)),
                srv', w2)))"
    using start_unfold by blast
  obtain r c1 w1 where c: "connect lib (MockMCPClient (server_priv_server_params srv)) w0 = (r, c1, w1)"
    using prod_cases3 by blast
  show ?thesis
  proof (cases r)
    case (Inr x)
    have n: "priv_session (MockMCPClient (server_priv_server_params srv)) = None"
      by (simp add: MockMCPClient_def)
    have "is_connected c1"
      using connect_success_connected [OF n] c Inr by blast
    moreover have "priv_client srv' = Some c1"
      using assms st c Inr by auto
    ultimately show ?thesis by (simp add: get_client_def)
  next
    case (Inl e)
    then have False using assms st c
      by (simp split: prod.splits sum.splits)
    then show ?thesis ..
  qed
qed

lemma start_failed_not_running:
  assumes "start lib srv w = (Inl e, srv', w')"
  shows "get_client srv' = Inl not_started"
proof -
  obtain w0 where st: "start lib srv w =
     (case connect lib (MockMCPClient (server_priv_server_params srv)) w0 of
        (Inr u, c1, w1) \<Rightarrow>
          (Inr (), srv\<lparr>priv_client := Some c1\<rparr>,
           log_msg INFO ''MCP test server started successfully'' w1)
      | (Inl e, c1, w1) \<Rightarrow>
          (case stop (srv\<lparr>priv_client := Some c1\<rparr>)
                  (log_msg ERROR (''Failed to start MCP test server: '' @ message e) w1) of
             (Inl e2, srv', w2) \<Rightarrow> (Inl e2, srv', w2)
           | (Inr u, srv', w2) \<Rightarrow>
               (Inl (Exn RuntimeError (''Could not start MCP server: '' @ message e) (Some e)),
                srv', w2)))"
    using start_unfold by blast
  obtain r c1 w1 where c: "connect lib (MockMCPClient (server_priv_server_params srv)) w0 = (r, c1, w1)"
    using prod_cases3 by blast
  show ?thesis
  proof (cases r)
    case (Inr x)
    then have False using assms st c by simp
    then show ?thesis ..
  next
    case (Inl e1)
    define w2 where "w2 = log_msg ERROR (''Failed to start MCP test server: '' @ message e1) w1"
    obtain r2 s2 w3 where sp: "stop (srv\<lparr>priv_client := Some c1\<rparr>) w2 = (r2, s2, w3)"
      using prod_cases3 by blast
    have "srv' = s2"
      using assms st c Inl sp by (cases r2) (simp_all add: w2_def)
    moreover have "priv_client s2 = None"
      using stop_clears_client [of "srv\<lparr>priv_client := Some c1\<rparr>" w2] sp by simp
    ultimately show ?thesis by (simp add: get_client_def)
  qed
qed

text \<open>
  Claim C8. \<open>get_client\<close> fails with the "not started" error on a manager that was never
  started; after a \<open>start\<close> that succeeds it returns a client, and that client is
  connected; after a \<open>start\<close> that fails and after every \<open>stop\<close> it fails again. In any
  state whatever, a client it returns is the manager's own and is connected, and it fails
  whenever the manager has no client or one that is not connected.
\<close>

theorem get_client_only_when_connected:
  "get_client (MCPTestServer cmd as ev t) = Inl not_started \<and>
   (\<forall>lib srv w u srv' w'. start lib srv w = (Inr u, srv', w') \<longrightarrow>
      (\<exists>c. get_client srv' = Inr c \<and> is_connected c)) \<and>
   (\<forall>lib srv w e srv' w'. start lib srv w = (Inl e, srv', w') \<longrightarrow>
      get_client srv' = Inl not_started) \<and>
   (\<forall>srv w. get_client (fst (snd (stop srv w))) = Inl not_started) \<and>
   (\<forall>srv c. get_client srv = Inr c \<longrightarrow> priv_client srv = Some c \<and> is_connected c) \<and>
   (\<forall>srv. priv_client srv = None \<or> (\<exists>c. priv_client srv = Some c \<and> \<not> is_connected c) \<longrightarrow>
      get_client srv = Inl not_started)"
proof -
  have a: "get_client (MCPTestServer cmd as ev t) = Inl not_started"
    by (simp add: get_client_def MCPTestServer_def Let_def)
  have b: "\<forall>srv c. get_client srv = Inr c \<longrightarrow> priv_client srv = Some c \<and> is_connected c"
    by (auto simp: get_client_def split: option.splits if_splits)
  have c: "\<forall>srv. priv_client srv = None \<or> (\<exists>c. priv_client srv = Some c \<and> \<not> is_connected c) \<longrightarrow>
      get_client srv = Inl not_started"
    by (auto simp: get_client_def)
  show ?thesis using a b c start_ok_running start_failed_not_running get_client_after_stop
    by blast
qed

lemma connect_good_sdk: "fst (connect good_sdk (MockMCPClient p) w) = Inr ()"
  by (simp add: connect_def good_sdk_def MockMCPClient_def ready_session_def
      enter_async_context_def Let_def)

lemma start_succeeds:
  assumes "\<And>w0. fst (connect lib (MockMCPClient (server_priv_server_params srv)) w0) = Inr ()"
  shows "fst (start lib srv w) = Inr ()"
proof -
  obtain w0 where st: "start lib srv w =
     (case connect lib (MockMCPClient (server_priv_server_params srv)) w0 of
        (Inr u, c1, w1) \<Rightarrow>
          (Inr (), srv\<lparr>priv_client := Some c1\<rparr>,
           log_msg INFO ''MCP test server started successfully'' w1)
      | (Inl e, c1, w1) \<Rightarrow>
          (case stop (srv\<lparr>priv_client := Some c1\<rparr>)
                  (log_msg ERROR (''Failed to start MCP test server: '' @ message e) w1) of
             (Inl e2, srv', w2) \<Rightarrow> (Inl e2, srv', w2)
           | (Inr u, srv', w2) \<Rightarrow>
               (Inl (Exn RuntimeError (''Could not start MCP server: '' @ message e) (Some e)),
                srv', w2)))"
    using start_unfold by blast
  obtain r c1 w1 where c: "connect lib (MockMCPClient (server_priv_server_params srv)) w0 = (r, c1, w1)"
    using prod_cases3 by blast
  have "r = Inr ()" using assms [of w0] c by simp
  then show ?thesis using st c by simp
qed

theorem get_client_only_when_connected_witness:
  "get_client (MCPTestServer ''python'' (Some [''server.py'']) None 30) = Inl not_started \<and>
   (case start good_sdk (MCPTestServer ''python'' (Some [''server.py'']) None 30) world0 of
      (r, srv', w') \<Rightarrow>
        r = Inr () \<and> (\<exists>c. get_client srv' = Inr c \<and> is_connected c) \<and>
        get_client (fst (snd (stop srv' w'))) = Inl not_started)"
proof -
  obtain r srv' w' where s:
    "start good_sdk (MCPTestServer ''python'' (Some [''server.py'']) None 30) world0 = (r, srv', w')"
    using prod_cases3 by blast
  have r: "r = Inr ()"
    using start_succeeds [of good_sdk "MCPTestServer ''python'' (Some [''server.py'']) None 30" world0]
      connect_good_sdk s by simp
  note t = get_client_only_when_connected [of "''python''" "Some [''server.py'']" None 30]
  have a: "get_client (MCPTestServer ''python'' (Some [''server.py'']) None 30) = Inl not_started"
    using t by blast
  have b: "\<exists>c. get_client srv' = Inr c \<and> is_connected c"
    using t s r by blast
  have c: "get_client (fst (snd (stop srv' w'))) = Inl not_started"
    using t by blast
  show ?thesis using a b c s r by simp
qed

section \<open>The readiness probe\<close>

lemma get_client_running:
  "get_client (running_server (connected_client s stack)) = Inr (connected_client s stack)"
  by (simp add: get_client_def running_server_def connected_client_def is_connected_def)

lemma list_tools_connected:
  "list_tools (connected_client s stack) = session_list_tools s"
  by (simp add: list_tools_def ensure_connected_def connected_client_def)

text \<open>
  Claim C2 does not hold of the code: \<open>wait_for_ready\<close> resolves its timeout and never uses
  it. With a timeout of one second, a probe that answers after sixty seconds makes the
  call return normally after sixty seconds, and a probe that never answers makes the call
  wait for ever.
\<close>

theorem wait_for_ready_ignores_timeout:
  "wait_for_ready
     (running_server (connected_client (ready_session (Completes 60 (Inr []))) [])) (Some 1) world0
     = Completes 60 (Inr (), log_msg DEBUG ''MCP test server is ready'' world0) \<and>
   wait_for_ready (running_server (connected_client (ready_session Never) [])) (Some 1) world0
     = Never"
  by (simp add: wait_for_ready_def get_client_running list_tools_connected ready_session_def)

text \<open>
  The deadline has no influence at all; what does hold is the conversion of a probe
  failure, and of a manager that is not started, into a \<open>TimeoutError\<close> with its cause.
\<close>

lemma wait_for_ready_timeout_unused:
  "wait_for_ready srv t1 w = wait_for_ready srv t2 w"
  by (simp add: wait_for_ready_def Let_def)

lemma wait_for_ready_probe_failure:
  "get_client srv = Inr c \<Longrightarrow> list_tools c = Completes d (Inl e) \<Longrightarrow>
   wait_for_ready srv t w = Completes d (Inl (timeout_error e), w)"
  by (simp add: wait_for_ready_def Let_def)

lemma wait_for_ready_not_started:
  "get_client srv = Inl e \<Longrightarrow> wait_for_ready srv t w = Completes 0 (Inl (timeout_error e), w)"
  by (simp add: wait_for_ready_def Let_def)

section \<open>Expecting a tool to fail\<close>

lemma startswith_iff: "startswith s p \<longleftrightarrow> (\<exists>v. s = p @ v)"
  by (induction s p rule: startswith.induct) auto

lemma str_contains_iff: "str_contains s sub \<longleftrightarrow> (\<exists>u v. s = u @ sub @ v)"
proof (induction s)
  case Nil
  then show ?case by simp
next
  case (Cons c s)
  show ?case
  proof
    assume "str_contains (c # s) sub"
    then consider "startswith (c # s) sub" | "str_contains s sub" by auto
    then show "\<exists>u v. c # s = u @ sub @ v"
    proof cases
      case 1
      then obtain v where "c # s = sub @ v" using startswith_iff by blast
      then have "c # s = [] @ sub @ v" by simp
      then show ?thesis by blast
    next
      case 2
      then obtain u v where "s = u @ sub @ v" using Cons.IH by blast
      then have "c # s = (c # u) @ sub @ v" by simp
      then show ?thesis by blast
    qed
  next
    assume "\<exists>u v. c # s = u @ sub @ v"
    then obtain u v where e: "c # s = u @ sub @ v" by blast
    show "str_contains (c # s) sub"
    proof (cases u)
      case Nil
      then have "startswith (c # s) sub" using e startswith_iff by auto
      then show ?thesis by simp
    next
      case (Cons a u')
      then have "s = u' @ sub @ v" using e by simp
      then have "str_contains s sub" using Cons.IH by blast
      then show ?thesis by simp
    qed
  qed
qed

text \<open>
  Claim C7, as amended. \<open>assert_tool_returns_error\<close> calls the tool through the client. If
  the call succeeds it raises an assertion failure. If the call fails with an exception
  that is not an \<open>AssertionError\<close> and whose message does not contain the required
  substring, it raises a different assertion failure, one that has the caught exception
  as its cause. If the call fails with an exception that is not an \<open>AssertionError\<close> and no
  substring is required or the message contains it, the caught exception is returned.
\<close>

theorem assert_tool_returns_error_cases:
  "(\<forall>res w'. call_tool c t a w = (Inr res, w') \<longrightarrow>
      assert_tool_returns_error c t a em w = (Inl (expected_error_but_succeeded t), w')) \<and>
   (\<forall>e w' m. call_tool c t a w = (Inl e, w') \<and> kind e \<noteq> AssertionError \<and> em = Some m \<and>
        \<not> (\<exists>u v. message e = u @ m @ v) \<longrightarrow>
      assert_tool_returns_error c t a em w = (Inl (message_mismatch t m e), w') \<and>
      kind (message_mismatch t m e) = AssertionError \<and>
      message_mismatch t m e \<noteq> expected_error_but_succeeded t) \<and>
   (\<forall>e w'. call_tool c t a w = (Inl e, w') \<and> kind e \<noteq> AssertionError \<and>
        (em = None \<or> (\<exists>m u v. em = Some m \<and> message e = u @ m @ v)) \<longrightarrow>
      assert_tool_returns_error c t a em w = (Inr e, w'))"
proof (intro conjI allI impI)
  fix res w'
  assume "call_tool c t a w = (Inr res, w')"
  then show "assert_tool_returns_error c t a em w = (Inl (expected_error_but_succeeded t), w')"
    by (simp add: assert_tool_returns_error_def)
next
  fix e w' m
  assume h: "call_tool c t a w = (Inl e, w') \<and> kind e \<noteq> AssertionError \<and> em = Some m \<and>
        \<not> (\<exists>u v. message e = u @ m @ v)"
  then have nc: "\<not> str_contains (message e) m" using str_contains_iff by blast
  have "m \<noteq> []"
  proof
    assume "m = []"
    then have "message e = [] @ m @ message e" by simp
    then show False using h by blast
  qed
  then have "truthy em" using h by (simp add: truthy_def)
  then show "assert_tool_returns_error c t a em w = (Inl (message_mismatch t m e), w')"
    using h nc by (simp add: assert_tool_returns_error_def)
  show "kind (message_mismatch t m e) = AssertionError"
    by (simp add: message_mismatch_def)
  show "message_mismatch t m e \<noteq> expected_error_but_succeeded t"
    by (simp add: message_mismatch_def expected_error_but_succeeded_def)
next
  fix e w'
  assume h: "call_tool c t a w = (Inl e, w') \<and> kind e \<noteq> AssertionError \<and>
        (em = None \<or> (\<exists>m u v. em = Some m \<and> message e = u @ m @ v))"
  have "\<not> (truthy em \<and> \<not> str_contains (message e) (the em))"
  proof (cases em)
    case None
    then show ?thesis by (simp add: truthy_def)
  next
    case (Some m)
    then have "str_contains (message e) m" using h str_contains_iff by auto
    then show ?thesis using Some by simp
  qed
  then show "assert_tool_returns_error c t a em w = (Inr e, w')"
    using h by (auto simp add: assert_tool_returns_error_def)
qed

lemma call_tool_user_client:
  "call_tool user_client name None world0 =
     (case session_call_tool (ready_session (Completes 0 (Inr []))) name [] of
        Inr result \<Rightarrow> (Inr result, log_msg DEBUG (''Tool '' @ quoted name @ '' called successfully'') world0)
      | Inl e \<Rightarrow> (Inl e, log_msg ERROR (''Tool '' @ quoted name @ '' call failed: '' @ message e) world0))"
  by (simp add: call_tool_def ensure_connected_def user_client_def connected_client_def)

lemma get_user_fails:
  "fst (call_tool user_client ''get_user'' None world0) = Inl (Exn OtherError ''User not found: 999'' None)"
  by (simp add: call_tool_user_client ready_session_def)

lemma check_fails:
  "fst (call_tool user_client ''check'' None world0) = Inl (Exn AssertionError ''User not found: 999'' None)"
  by (simp add: call_tool_user_client ready_session_def)

lemma add_succeeds:
  "fst (call_tool user_client ''add'' None world0) = Inr [TextContent ''8'']"
  by (simp add: call_tool_user_client ready_session_def)

lemma contains_user_not_found: "\<exists>u v. ''User not found: 999'' = u @ ''User not found'' @ v"
proof -
  have "str_contains ''User not found: 999'' ''User not found''" by simp
  then show ?thesis using str_contains_iff by blast
qed

lemma not_contains_timeout: "\<not> (\<exists>u v. ''User not found: 999'' = u @ ''Timeout'' @ v)"
proof -
  have "\<not> str_contains ''User not found: 999'' ''Timeout''" by simp
  then show ?thesis using str_contains_iff by blast
qed

theorem assert_tool_returns_error_cases_witness:
  "fst (assert_tool_returns_error user_client ''get_user'' None (Some ''User not found'') world0)
     = Inr (Exn OtherError ''User not found: 999'' None) \<and>
   fst (assert_tool_returns_error user_client ''get_user'' None (Some ''Timeout'') world0)
     = Inl (message_mismatch ''get_user'' ''Timeout'' (Exn OtherError ''User not found: 999'' None)) \<and>
   fst (assert_tool_returns_error user_client ''add'' None None world0)
     = Inl (expected_error_but_succeeded ''add'')"
proof -
  define e where "e = Exn OtherError ''User not found: 999'' None"
  have k: "kind e \<noteq> AssertionError" and m: "message e = ''User not found: 999''"
    by (simp_all add: e_def)
  obtain w1 where c1: "call_tool user_client ''get_user'' None world0 = (Inl e, w1)"
    using get_user_fails unfolding e_def by (metis prod.collapse)
  obtain w2 where c2: "call_tool user_client ''add'' None world0 = (Inr [TextContent ''8''], w2)"
    using add_succeeds by (metis prod.collapse)
  have x1: "\<exists>m' u v. Some ''User not found'' = Some m' \<and> message e = u @ m' @ v"
    using contains_user_not_found m by simp
  have x2: "\<not> (\<exists>u v. message e = u @ ''Timeout'' @ v)"
    using not_contains_timeout m by simp
  have a: "assert_tool_returns_error user_client ''get_user'' None (Some ''User not found'') world0
      = (Inr e, w1)"
    using assert_tool_returns_error_cases
      [of user_client "''get_user''" None world0 "Some ''User not found''",
       THEN conjunct2, THEN conjunct2, rule_format, of e w1]
      c1 k x1 by blast
  have b: "assert_tool_returns_error user_client ''get_user'' None (Some ''Timeout'') world0
      = (Inl (message_mismatch ''get_user'' ''Timeout'' e), w1)"
    using assert_tool_returns_error_cases
      [of user_client "''get_user''" None world0 "Some ''Timeout''",
       THEN conjunct2, THEN conjunct1, rule_format, of e w1 "''Timeout''"]
      c1 k x2 by blast
  have c: "assert_tool_returns_error user_client ''add'' None None world0
      = (Inl (expected_error_but_succeeded ''add''), w2)"
    using assert_tool_returns_error_cases
      [of user_client "''add''" None world0 None, THEN conjunct1, rule_format, of _ w2]
      c2 by blast
  show ?thesis unfolding a b c e_def fst_conv by (intro conjI refl)
qed

text \<open>
  The claim as stated fails for a tool whose failure is an \<open>AssertionError\<close>: its message
  contains the required substring, and the exception is raised, not returned.
\<close>

theorem assertion_error_returned_counterexample:
  "fst (call_tool user_client ''check'' None world0)
     = Inl (Exn AssertionError ''User not found: 999'' None) \<and>
   str_contains ''User not found: 999'' ''User not found'' \<and>
   fst (assert_tool_returns_error user_client ''check'' None (Some ''User not found'') world0)
     = Inl (Exn AssertionError ''User not found: 999'' None) \<and>
   fst (assert_tool_returns_error user_client ''check'' None (Some ''User not found'') world0)
     \<noteq> Inr (Exn AssertionError ''User not found: 999'' None)"
proof -
  obtain w1 where c1: "call_tool user_client ''check'' None world0 =
      (Inl (Exn AssertionError ''User not found: 999'' None), w1)"
    using check_fails by (metis prod.collapse)
  have "fst (assert_tool_returns_error user_client ''check'' None (Some ''User not found'') world0)
     = Inl (Exn AssertionError ''User not found: 999'' None)"
    using c1 by (simp add: assert_tool_returns_error_def)
  then show ?thesis using check_fails by simp
qed

text \<open>
  Claim C9. An \<open>AssertionError\<close> raised by the tool invocation leaves the helper as the
  same exception, whatever substring is required: it is neither checked against the
  substring nor returned. The caller sees a raised \<open>AssertionError\<close>, the class of outcome
  it also sees when the tool unexpectedly succeeds.
\<close>

theorem assertion_error_reraised_unchanged:
  "call_tool c t a w = (Inl e, w') \<and> kind e = AssertionError \<longrightarrow>
     assert_tool_returns_error c t a em w = (Inl e, w') \<and>
     (\<forall>c2 res w2. call_tool c2 t a w = (Inr res, w2) \<longrightarrow>
        (\<exists>e2. fst (assert_tool_returns_error c2 t a em w) = Inl e2 \<and> kind e2 = kind e))"
  by (auto simp add: assert_tool_returns_error_def expected_error_but_succeeded_def)

theorem assertion_error_reraised_unchanged_witness:
  "call_tool user_client ''check'' None world0 =
     (Inl (Exn AssertionError ''User not found: 999'' None),
      log_msg ERROR (''Tool '' @ quoted ''check'' @ '' call failed: User not found: 999'') world0) \<and>
   fst (assert_tool_returns_error user_client ''check'' None (Some ''Timeout'') world0)
     = Inl (Exn AssertionError ''User not found: 999'' None) \<and>
   (\<exists>e2. fst (assert_tool_returns_error user_client ''add'' None (Some ''Timeout'') world0) = Inl e2 \<and>
      kind e2 = AssertionError)"
proof -
  have c1: "call_tool user_client ''check'' None world0 =
     (Inl (Exn AssertionError ''User not found: 999'' None),
      log_msg ERROR (''Tool '' @ quoted ''check'' @ '' call failed: User not found: 999'') world0)"
    by (simp add: call_tool_user_client ready_session_def)
  obtain w2 where c2: "call_tool user_client ''add'' None world0 = (Inr [TextContent ''8''], w2)"
    using add_succeeds by (metis prod.collapse)
  note t = assertion_error_reraised_unchanged
    [of user_client "''check''" None world0 "Exn AssertionError ''User not found: 999'' None"
        "log_msg ERROR (''Tool '' @ quoted ''check'' @ '' call failed: User not found: 999'') world0"
        "Some ''Timeout''"]
  have a: "fst (assert_tool_returns_error user_client ''check'' None (Some ''Timeout'') world0)
     = Inl (Exn AssertionError ''User not found: 999'' None)"
    using t c1 by simp
  have b: "\<exists>e2. fst (assert_tool_returns_error user_client ''add'' None (Some ''Timeout'') world0) = Inl e2 \<and>
      kind e2 = AssertionError"
    by (simp add: assert_tool_returns_error_def c2 expected_error_but_succeeded_def)
  show ?thesis using a b c1 by blast
qed

section \<open>Snapshots: writing, skipping and comparing\<close>

text \<open>
  Claim C6. An update is requested when the call says so, or when the call says nothing
  and the helper's global flag is set. When an update is requested, \<open>assert_match\<close> writes
  the serialized value and ends in a skip. On a first encounter (no record, no update
  requested) it writes the serialized value and returns normally. When a record exists
  and no update is requested, it writes nothing and never ends in a skip. So a skip is
  reported exactly for the writes that an update request caused.
\<close>

theorem assert_match_skips_exactly_on_update:
  "(should_update h upd \<longleftrightarrow> upd = Some True \<or> (upd = None \<and> update_snapshots h)) \<and>
   (should_update h upd \<longrightarrow>
      assert_match h v name upd dir =
        Some (Skips (''Updated snapshot: '' @ name),
              AList.update (get_snapshot_path h name) (serialize v) dir)) \<and>
   (\<not> should_update h upd \<and> map_of dir (get_snapshot_path h name) = None \<longrightarrow>
      assert_match h v name upd dir =
        Some (Returns, AList.update (get_snapshot_path h name) (serialize v) dir)) \<and>
   (\<not> should_update h upd \<and> map_of dir (get_snapshot_path h name) \<noteq> None \<longrightarrow>
      (\<forall>out dir'. assert_match h v name upd dir = Some (out, dir') \<longrightarrow>
         dir' = dir \<and> (\<forall>m. out \<noteq> Skips m)))"
proof (intro conjI impI allI)
  show "should_update h upd \<longleftrightarrow> upd = Some True \<or> (upd = None \<and> update_snapshots h)"
    by (cases upd) (auto simp: should_update_def)
next
  assume "should_update h upd"
  then show "assert_match h v name upd dir =
        Some (Skips (''Updated snapshot: '' @ name),
              AList.update (get_snapshot_path h name) (serialize v) dir)"
    by (simp add: assert_match_def Let_def)
next
  assume "\<not> should_update h upd \<and> map_of dir (get_snapshot_path h name) = None"
  then show "assert_match h v name upd dir =
        Some (Returns, AList.update (get_snapshot_path h name) (serialize v) dir)"
    by (simp add: assert_match_def Let_def)
next
  fix out dir'
  assume a: "\<not> should_update h upd \<and> map_of dir (get_snapshot_path h name) \<noteq> None"
    and b: "assert_match h v name upd dir = Some (out, dir')"
  from a obtain e where e: "map_of dir (get_snapshot_path h name) = Some e" by auto
  have "dir' = dir \<and> (\<forall>m. out \<noteq> Skips m)"
    using a b e
    by (auto simp: assert_match_def read_text_def Let_def split: option.splits sum.splits if_splits)
  then show "dir' = dir" and "\<And>m. out \<noteq> Skips m" by auto
qed

lemma stored_a1: "serialize (Plain (JObj [(''a'', JInt 1)])) = ''{'' @ [CHR 0x0A] @ ''  '' @ [CHR 0x22] @ ''a'' @ [CHR 0x22] @ '': 1'' @ [CHR 0x0A] @ ''}''"
  by code_simp

lemma first_run:
  "assert_match user_test a1 ''x'' None [] = Some (Returns, [(''test_user__x.json'', serialize a1)])"
  by code_simp

lemma second_run:
  "assert_match user_test a1 ''x'' None [(''test_user__x.json'', serialize a1)]
     = Some (Returns, [(''test_user__x.json'', serialize a1)])"
  by code_simp

lemma changed_run:
  "assert_match user_test a2 ''x'' None [(''test_user__x.json'', serialize a1)]
     = Some (Raises (snapshot_mismatch ''x'' (serialize a1) (serialize a2)),
             [(''test_user__x.json'', serialize a1)])"
  by code_simp

lemma msg_contains:
  "str_contains (message (snapshot_mismatch ''x'' (serialize a1) (serialize a2))) ([CHR 0x22] @ ''a'' @ [CHR 0x22] @ '': 1'') \<and>
   str_contains (message (snapshot_mismatch ''x'' (serialize a1) (serialize a2))) ([CHR 0x22] @ ''a'' @ [CHR 0x22] @ '': 2'')"
  by code_simp

lemma user_test_path: "get_snapshot_path user_test ''x'' = ''test_user__x.json''"
  by code_simp

theorem assert_match_skips_exactly_on_update_witness:
  "assert_match user_test a1 ''x'' (Some True) [] =
     Some (Skips ''Updated snapshot: x'', [(''test_user__x.json'', serialize a1)]) \<and>
   assert_match user_test a1 ''x'' None [] =
     Some (Returns, [(''test_user__x.json'', serialize a1)]) \<and>
   assert_match user_test a1 ''x'' None [(''test_user__x.json'', serialize a1)] =
     Some (Returns, [(''test_user__x.json'', serialize a1)])"
proof -
  have u: "should_update user_test (Some True)" and n: "\<not> should_update user_test None"
    by (simp_all add: should_update_def user_test_def)
  have a: "assert_match user_test a1 ''x'' (Some True) [] =
     Some (Skips ''Updated snapshot: x'', [(''test_user__x.json'', serialize a1)])"
    using assert_match_skips_exactly_on_update [of user_test "Some True" a1 "''x''" "[]"] u
    by (simp add: user_test_path)
  have b: "assert_match user_test a1 ''x'' None [] =
     Some (Returns, [(''test_user__x.json'', serialize a1)])"
    using assert_match_skips_exactly_on_update [of user_test None a1 "''x''" "[]"] n
    by (simp add: user_test_path)
  have c: "assert_match user_test a1 ''x'' None [(''test_user__x.json'', serialize a1)] =
     Some (Returns, [(''test_user__x.json'', serialize a1)])"
    by (rule second_run)
  have "\<forall>m. Returns \<noteq> Skips m"
    using assert_match_skips_exactly_on_update
      [of user_test None a1 "''x''" "[(''test_user__x.json'', serialize a1)]"] n c
    by (simp add: user_test_path)
  then show ?thesis using a b c by simp
qed

section \<open>Text snapshots and the JSON operations\<close>

lemma path_suffix_json: "x \<noteq> [] \<Longrightarrow> path_suffix (x @ ''.json'') = ''.json''"
proof -
  assume x: "x \<noteq> []"
  have r: "rfind_dot (x @ ''.json'') = Some (length x)"
    by (simp add: rfind_dot_def)
  show ?thesis using x by (simp add: path_suffix_def r)
qed

lemma text_snapshot_path_eq:
  "text_snapshot_path h name = test_name h @ ''__'' @ name @ ''.txt''"
proof -
  have "get_snapshot_path h name = (test_name h @ ''__'' @ name) @ ''.json''"
    by (simp add: get_snapshot_path_def)
  moreover have "test_name h @ ''__'' @ name \<noteq> []" by simp
  ultimately have "path_suffix (get_snapshot_path h name) = ''.json''"
    using path_suffix_json by metis
  then show ?thesis
    by (simp add: text_snapshot_path_def with_suffix_def path_stem_def get_snapshot_path_def)
qed

lemma text_path_not_json: "text_snapshot_path h name \<noteq> get_snapshot_path h n"
proof
  assume "text_snapshot_path h name = get_snapshot_path h n"
  then have "last (text_snapshot_path h name) = last (get_snapshot_path h n)" by simp
  then show False by (simp add: text_snapshot_path_eq get_snapshot_path_def)
qed

lemma text_path_not_globbed: "\<not> glob_match h (text_snapshot_path h name)"
proof -
  have "rev (text_snapshot_path h name) = CHR ''t'' # rev (test_name h @ ''__'' @ name @ ''.tx'')"
    by (simp add: text_snapshot_path_eq)
  then have "\<not> endswith (text_snapshot_path h name) ''.json''"
    by (simp add: endswith_def)
  then show ?thesis by (simp add: glob_match_def)
qed

lemma filter_names_update:
  "\<not> P k \<Longrightarrow> filter P (map fst (AList.update k v d)) = filter P (map fst d)"
  by (induction d) auto

lemma list_snapshots_update:
  "\<not> glob_match h k \<Longrightarrow> list_snapshots h (AList.update k v d) = list_snapshots h d"
  by (simp add: list_snapshots_def filter_names_update)

lemma get_snapshot_update:
  "k \<noteq> get_snapshot_path h n \<Longrightarrow> get_snapshot h n (AList.update k v d) = get_snapshot h n d"
  by (simp add: get_snapshot_def update_conv')

lemma delete_snapshot_other:
  "k \<noteq> get_snapshot_path h n \<Longrightarrow> map_of (delete_snapshot h n d) k = map_of d k"
  by (simp add: delete_snapshot_def Let_def delete_conv')

lemma assert_match_text_dir:
  "snd (assert_match_text h txt name upd dir) = dir \<or>
   snd (assert_match_text h txt name upd dir) = AList.update (text_snapshot_path h name) txt dir"
  by (auto simp: assert_match_text_def read_text_def Let_def split: option.splits)

text \<open>
  Claim C10. \<open>assert_match_text\<close> stores its text in the file of the snapshot name with
  the extension \<open>.txt\<close>. Whatever it did, every \<open>get_snapshot\<close> answers as before (with the
  absent-marker for the same name when that name has no \<open>.json\<close> record), no
  \<open>delete_snapshot\<close> changes the \<open>.txt\<close> file, and \<open>list_snapshots\<close> lists what it listed
  before.
\<close>

theorem json_operations_ignore_text_snapshots:
  "text_snapshot_path h name = test_name h @ ''__'' @ name @ ''.txt'' \<and>
   (case assert_match_text h txt name upd dir of (out, dir') \<Rightarrow>
      (should_update h upd \<or> map_of dir (text_snapshot_path h name) = None \<longrightarrow>
         map_of dir' (text_snapshot_path h name) = Some txt) \<and>
      (\<forall>n. get_snapshot h n dir' = get_snapshot h n dir) \<and>
      (map_of dir (get_snapshot_path h name) = None \<longrightarrow> get_snapshot h name dir' = Some (Inr None)) \<and>
      (\<forall>n. map_of (delete_snapshot h n dir') (text_snapshot_path h name) =
            map_of dir' (text_snapshot_path h name)) \<and>
      list_snapshots h dir' = list_snapshots h dir)"
proof -
  obtain out dir' where r: "assert_match_text h txt name upd dir = (out, dir')"
    by (cases "assert_match_text h txt name upd dir") auto
  have d: "dir' = dir \<or> dir' = AList.update (text_snapshot_path h name) txt dir"
    using assert_match_text_dir [of h "txt" name upd dir] r by simp
  have w: "should_update h upd \<or> map_of dir (text_snapshot_path h name) = None \<longrightarrow>
         map_of dir' (text_snapshot_path h name) = Some txt"
    using r by (auto simp: assert_match_text_def read_text_def Let_def update_conv' split: if_splits)
  have g: "\<forall>n. get_snapshot h n dir' = get_snapshot h n dir"
    using d get_snapshot_update [OF text_path_not_json] by auto
  have g0: "map_of dir (get_snapshot_path h name) = None \<longrightarrow> get_snapshot h name dir' = Some (Inr None)"
    using g by (simp add: get_snapshot_def)
  have dl: "\<forall>n. map_of (delete_snapshot h n dir') (text_snapshot_path h name) =
            map_of dir' (text_snapshot_path h name)"
    using delete_snapshot_other [OF text_path_not_json] by simp
  have l: "list_snapshots h dir' = list_snapshots h dir"
    using d list_snapshots_update [OF text_path_not_globbed] by auto
  show ?thesis using r w g g0 dl l text_snapshot_path_eq by simp
qed

theorem json_operations_ignore_text_snapshots_witness:
  "text_snapshot_path user_test ''x'' = ''test_user__x.txt'' \<and>
   assert_match_text user_test ''hello'' ''x'' None [] = (Returns, [(''test_user__x.txt'', ''hello'')]) \<and>
   get_snapshot user_test ''x'' [(''test_user__x.txt'', ''hello'')] = Some (Inr None) \<and>
   delete_snapshot user_test ''x'' [(''test_user__x.txt'', ''hello'')] = [(''test_user__x.txt'', ''hello'')] \<and>
   list_snapshots user_test [(''test_user__x.txt'', ''hello'')] = []"
proof -
  have p: "text_snapshot_path user_test ''x'' = ''test_user__x.txt''" by code_simp
  have a: "assert_match_text user_test ''hello'' ''x'' None [] = (Returns, [(''test_user__x.txt'', ''hello'')])"
    by code_simp
  have m: "map_of ([]::directory) (get_snapshot_path user_test ''x'') = None" by simp
  note t = json_operations_ignore_text_snapshots
    [where h = user_test and name = "''x''" and upd = None and dir = "[]", of "''hello''",
     unfolded a prod.case]
  have g: "get_snapshot user_test ''x'' [(''test_user__x.txt'', ''hello'')] = Some (Inr None)"
    using t m by blast
  have l: "list_snapshots user_test [(''test_user__x.txt'', ''hello'')] = list_snapshots user_test []"
    using t by blast
  have l0: "list_snapshots user_test [] = []" by (simp add: list_snapshots_def)
  have d: "delete_snapshot user_test ''x'' [(''test_user__x.txt'', ''hello'')] = [(''test_user__x.txt'', ''hello'')]"
    by code_simp
  show ?thesis using p a g d l l0 by simp
qed

section \<open>The parser reads back the tokens of a value\<close>

lemma run_append_step:
  "run (Some (s, st)) (t # ts) = run (step s st t) ts"
  by (cases s) simp_all

lemma run_elements:
  assumes "\<forall>x \<in> set xs. value_run x"
  shows "run (Some (SAfter, ArrF acc # st)) (concat (map (\<lambda>x. Comma # tokens x) xs) @ RBracket # rest)
         = run (complete (JArr (rev acc @ map decoded_form xs)) st) rest"
  using assms
proof (induction xs arbitrary: acc)
  case Nil
  show ?case by (simp add: run_append_step)
next
  case (Cons x xs)
  have vx: "value_run x" using Cons.prems by simp
  have "run (Some (SAfter, ArrF acc # st))
          (concat (map (\<lambda>x. Comma # tokens x) (x # xs)) @ RBracket # rest)
        = run (Some (SValue, ArrF acc # st))
            (tokens x @ (concat (map (\<lambda>x. Comma # tokens x) xs) @ RBracket # rest))"
    by (simp add: run_append_step)
  also have "\<dots> = run (Some (SAfter, ArrF (decoded_form x # acc) # st))
            (concat (map (\<lambda>x. Comma # tokens x) xs) @ RBracket # rest)"
    using vx unfolding value_run_def by simp
  also have "\<dots> = run (complete (JArr (rev (decoded_form x # acc) @ map decoded_form xs)) st) rest"
    using Cons.IH [of "decoded_form x # acc"] Cons.prems by simp
  finally show ?case by simp
qed

lemma commas_Cons: "commas (x # xs) = x @ concat (map (\<lambda>y. Comma # y) xs)"
  by (induction xs arbitrary: x) auto

lemma members_commas:
  "concat (map (\<lambda>y. Comma # y) (map (\<lambda>(k, v). TStr k # Colon # tokens v) xs))
   = concat (map (\<lambda>(k, v). Comma # TStr k # Colon # tokens v) xs)"
  by (induction xs) auto

lemma elements_commas:
  "concat (map (\<lambda>y. Comma # y) (map tokens xs)) = concat (map (\<lambda>x. Comma # tokens x) xs)"
  by (induction xs) auto

lemma run_array:
  assumes "\<forall>x \<in> set xs. value_run x"
  shows "value_run (JArr xs)"
  unfolding value_run_def
proof (intro allI impI)
  fix s st rest
  assume s: "s = SValue \<or> s = SFirstElem"
  show "run (Some (s, st)) (tokens (JArr xs) @ rest) = run (complete (decoded_form (JArr xs)) st) rest"
  proof (cases xs)
    case Nil
    then show ?thesis using s by (auto simp: run_append_step begin_value_def scalar_def)
  next
    case (Cons x xs')
    have vx: "value_run x" using assms Cons by simp
    have "run (Some (s, st)) (tokens (JArr xs) @ rest)
          = run (Some (SFirstElem, ArrF [] # st))
              (tokens x @ (concat (map (\<lambda>x. Comma # tokens x) xs') @ RBracket # rest))"
      using s Cons
      by (auto simp: run_append_step begin_value_def scalar_def commas_Cons elements_commas
          simp del: map_map)
    also have "\<dots> = run (Some (SAfter, ArrF [decoded_form x] # st))
              (concat (map (\<lambda>x. Comma # tokens x) xs') @ RBracket # rest)"
      using vx unfolding value_run_def by simp
    also have "\<dots> = run (complete (JArr (rev [decoded_form x] @ map decoded_form xs')) st) rest"
      using run_elements [of xs' "[decoded_form x]" st rest] assms Cons by simp
    finally show ?thesis using Cons by simp
  qed
qed

lemma run_members:
  assumes "\<forall>(k, v) \<in> set kvs. value_run v"
  shows "run (Some (SAfter, ObjW acc # st))
           (concat (map (\<lambda>(k, v). Comma # TStr k # Colon # tokens v) kvs) @ RBrace # rest)
         = run (complete (JObj (dict_of (rev acc @ map (\<lambda>(k, v). (k, decoded_form v)) kvs))) st) rest"
  using assms
proof (induction kvs arbitrary: acc)
  case Nil
  show ?case by (simp add: run_append_step)
next
  case (Cons kv kvs)
  obtain k v where kv: "kv = (k, v)" by (cases kv) auto
  have vv: "value_run v" using Cons.prems kv by simp
  have "run (Some (SAfter, ObjW acc # st))
          (concat (map (\<lambda>(k, v). Comma # TStr k # Colon # tokens v) (kv # kvs)) @ RBrace # rest)
        = run (Some (SValue, ObjK acc k # st))
            (tokens v @ (concat (map (\<lambda>(k, v). Comma # TStr k # Colon # tokens v) kvs) @ RBrace # rest))"
    by (simp add: run_append_step kv)
  also have "\<dots> = run (Some (SAfter, ObjW ((k, decoded_form v) # acc) # st))
            (concat (map (\<lambda>(k, v). Comma # TStr k # Colon # tokens v) kvs) @ RBrace # rest)"
    using vv unfolding value_run_def by simp
  also have "\<dots> = run (complete (JObj (dict_of (rev ((k, decoded_form v) # acc) @
                          map (\<lambda>(k, v). (k, decoded_form v)) kvs))) st) rest"
    using Cons.IH [of "(k, decoded_form v) # acc"] Cons.prems by simp
  finally show ?case by (simp add: kv)
qed

lemma run_object:
  assumes "\<forall>(k, v) \<in> set kvs. value_run v"
  shows "value_run (JObj kvs)"
  unfolding value_run_def
proof (intro allI impI)
  fix s st rest
  assume s: "s = SValue \<or> s = SFirstElem"
  have sorted_vals: "\<forall>(k, v) \<in> set (sort_key fst kvs). value_run v" using assms by simp
  show "run (Some (s, st)) (tokens (JObj kvs) @ rest) = run (complete (decoded_form (JObj kvs)) st) rest"
  proof (cases "sort_key fst kvs")
    case Nil
    then have "kvs = []" by (metis length_sort list.size(3) length_0_conv)
    then show ?thesis using s by (auto simp: run_append_step begin_value_def scalar_def dict_of_def)
  next
    case (Cons kv rest')
    obtain k v where kv: "kv = (k, v)" by (cases kv) auto
    have vv: "value_run v" using sorted_vals Cons kv by simp
    have rv: "\<forall>(k, v) \<in> set rest'. value_run v" using sorted_vals Cons by simp
    have "run (Some (s, st)) (tokens (JObj kvs) @ rest)
          = run (Some (SValue, ObjK [] k # st))
              (tokens v @ (concat (map (\<lambda>(k, v). Comma # TStr k # Colon # tokens v) rest') @ RBrace # rest))"
      using s Cons kv
      by (auto simp: run_append_step begin_value_def scalar_def commas_Cons members_commas
          simp del: map_map)
    also have "\<dots> = run (Some (SAfter, ObjW [(k, decoded_form v)] # st))
              (concat (map (\<lambda>(k, v). Comma # TStr k # Colon # tokens v) rest') @ RBrace # rest)"
      using vv unfolding value_run_def by simp
    also have "\<dots> = run (complete (JObj (dict_of (rev [(k, decoded_form v)] @
                            map (\<lambda>(k, v). (k, decoded_form v)) rest'))) st) rest"
      using run_members [of rest' "[(k, decoded_form v)]" st rest] rv by simp
    finally show ?thesis using Cons kv by simp
  qed
qed

lemma value_run_all: "value_run v"
proof (induction v)
  case (JArr xs)
  then show ?case using run_array by simp
next
  case (JObj kvs)
  have "\<forall>(k, v) \<in> set kvs. value_run v"
    using JObj by (auto simp: snds.simps) 
  then show ?case using run_object by simp
qed (auto simp: value_run_def run_append_step begin_value_def scalar_def)

lemma parse_tokens: "parse (tokens v) = Some (decoded_form v)"
proof -
  have "run (Some (SValue, [])) (tokens v @ []) = run (complete (decoded_form v) []) []"
    using value_run_all [of v] unfolding value_run_def by blast
  then show ?thesis by (simp add: parse_def)
qed

section \<open>The tokenizer reads back the text of a value\<close>

lemma char_of_code: "(of_char c :: nat) = n \<Longrightarrow> c = char_of n"
  by auto

lemma of_char_lt: "(of_char c :: nat) < 256"
  by (metis of_char_of char_of_char mod_less_divisor zero_less_numeral)

lemma digit_char_props:
  "n < 10 \<Longrightarrow> is_digit (digit_char n) \<and> digit_val (digit_char n) = n"
  by (simp add: is_digit_def digit_val_def digit_char_def)

lemma digit_char_zero: "n < 10 \<Longrightarrow> digit_char n = CHR ''0'' \<Longrightarrow> n = 0"
proof -
  assume n: "n < 10" and e: "digit_char n = CHR ''0''"
  have "(of_char (digit_char n) :: nat) = of_char CHR ''0''" using e by simp
  then show "n = 0" using n by (simp add: digit_char_def)
qed

lemma decimal_simps:
  "n < 10 \<Longrightarrow> decimal n = [digit_char n]"
  "\<not> n < 10 \<Longrightarrow> decimal n = decimal (n div 10) @ [digit_char (n mod 10)]"
  by (subst decimal.simps, simp)+

declare decimal.simps [simp del]

lemma decimal_digits: "\<forall>c \<in> set (decimal n). is_digit c"
proof (induction n rule: decimal.induct)
  case (1 n)
  show ?case
  proof (cases "n < 10")
    case True
    then show ?thesis by (simp add: decimal_simps digit_char_props)
  next
    case False
    then show ?thesis using 1 by (simp add: decimal_simps digit_char_props)
  qed
qed

lemma decimal_not_Nil: "decimal n \<noteq> []"
  by (cases "n < 10") (simp_all add: decimal_simps)

lemma decimal_value_snoc: "decimal_value (ds @ [c]) = 10 * decimal_value ds + digit_val c"
  by (simp add: decimal_value_def)

lemma decimal_value_decimal: "decimal_value (decimal n) = n"
proof (induction n rule: decimal.induct)
  case (1 n)
  show ?case
  proof (cases "n < 10")
    case True
    then show ?thesis by (simp add: decimal_simps decimal_value_def digit_char_props)
  next
    case False
    then show ?thesis using 1 by (simp add: decimal_simps decimal_value_snoc digit_char_props)
  qed
qed

lemma decimal_leading_zero: "hd (decimal n) = CHR ''0'' \<Longrightarrow> n = 0"
proof (induction n rule: decimal.induct)
  case (1 n)
  show ?case
  proof (cases "n < 10")
    case True
    then show ?thesis using 1(2) digit_char_zero by (simp add: decimal_simps)
  next
    case False
    then have "hd (decimal n) = hd (decimal (n div 10))"
      by (simp add: decimal_simps decimal_not_Nil)
    then have "n div 10 = 0" using 1 False by simp
    then show ?thesis using False by simp
  qed
qed

lemma decimal_zero: "decimal 0 = ''0''"
proof -
  have "(of_char CHR ''0'' :: nat) = 48" by simp
  then have "CHR ''0'' = char_of (48::nat)" by (rule char_of_code)
  then show ?thesis by (simp add: decimal_simps digit_char_def)
qed

lemma safe_simps [simp]:
  "safe []" "safe (CHR '','' # cs)" "safe (CHR 0x0A # cs)"
  by (simp_all add: safe_def)

lemma safe_no_float: "safe r \<Longrightarrow> \<not> float_follows r"
  by (auto simp: safe_def float_follows_def split: list.splits)

lemma safe_takeWhile:
  assumes "safe r" and "\<forall>c \<in> set ds. is_digit c"
  shows "takeWhile is_digit (ds @ r) = ds"
proof -
  have "takeWhile is_digit r = []"
    using assms(1) by (cases r) (auto simp: safe_def is_digit_def)
  moreover have "takeWhile is_digit (ds @ r) = ds @ takeWhile is_digit r"
    using assms(2) by (simp add: takeWhile_append2)
  ultimately show ?thesis by simp
qed

lemma digit_plain:
  "is_digit c \<Longrightarrow>
     \<not> is_space c \<and> c \<noteq> CHR ''{'' \<and> c \<noteq> CHR ''}'' \<and> c \<noteq> CHR ''['' \<and> c \<noteq> CHR '']'' \<and>
     c \<noteq> CHR '','' \<and> c \<noteq> CHR '':'' \<and> c \<noteq> CHR 0x22 \<and> c \<noteq> CHR ''-''"
  by (auto simp: is_digit_def is_space_def)

declare tokenize.simps(2) [simp del]

lemma tokenize_space: "is_space c \<Longrightarrow> tokenize (c # cs) = tokenize cs"
  by (simp add: tokenize.simps(2))

lemma tokenize_digits:
  assumes d: "is_digit c" and r: "\<not> float_follows (drop (length (int_tail c cs)) cs)"
  shows "tokenize (c # cs) =
     emit (TInt (int (decimal_value (c # int_tail c cs)))) (tokenize (drop (length (int_tail c cs)) cs))"
  using digit_plain [OF d] d r by (simp add: tokenize.simps(2) Let_def)

lemma tokenize_minus_digits:
  assumes d: "is_digit c" and r: "\<not> float_follows (drop (length (int_tail c cs)) cs)"
  shows "tokenize (CHR ''-'' # c # cs) =
     emit (TInt (- int (decimal_value (c # int_tail c cs)))) (tokenize (drop (length (int_tail c cs)) cs))"
  using d r by (simp add: tokenize.simps(2) Let_def is_space_def is_digit_def)

lemma int_tail_decimal:
  assumes "decimal n = c # ds" and "safe r"
  shows "int_tail c (ds @ r) = ds"
proof (cases "c = CHR ''0''")
  case True
  then have "n = 0" using decimal_leading_zero [of n] assms(1) by simp
  then have "ds = []" using assms(1) by (simp add: decimal_zero)
  then show ?thesis using True by (simp add: int_tail_def)
next
  case False
  have "\<forall>x \<in> set ds. is_digit x" using decimal_digits [of n] assms(1) by simp
  then have "takeWhile is_digit (ds @ r) = ds" using safe_takeWhile [OF assms(2)] by blast
  then show ?thesis using False by (simp only: int_tail_def if_False)
qed

lemma tokenize_decimal:
  assumes "safe r"
  shows "tokenize (decimal n @ r) = emit (TInt (int n)) (tokenize r) \<and>
         tokenize (CHR ''-'' # decimal n @ r) = emit (TInt (- int n)) (tokenize r)"
proof -
  obtain c ds where cd: "decimal n = c # ds"
    using decimal_not_Nil [of n] by (cases "decimal n") auto
  have dg: "is_digit c" using decimal_digits [of n] cd by simp
  have t: "int_tail c (ds @ r) = ds" using int_tail_decimal [OF cd assms] .
  have nf: "\<not> float_follows (drop (length (int_tail c (ds @ r))) (ds @ r))"
    using t safe_no_float [OF assms] by simp
  have v: "decimal_value (c # ds) = n" using decimal_value_decimal [of n] cd by simp
  have a: "tokenize (decimal n @ r) = emit (TInt (int n)) (tokenize r)"
    using tokenize_digits [OF dg nf] t v cd by simp
  have b: "tokenize (CHR ''-'' # decimal n @ r) = emit (TInt (- int n)) (tokenize r)"
    using tokenize_minus_digits [OF dg nf] t v cd by simp
  show ?thesis using a b by simp
qed

lemma tokenize_encode_int: "safe r \<Longrightarrow> tokenize (encode_int i @ r) = emit (TInt i) (tokenize r)"
  by (cases "i < 0") (simp_all add: encode_int_def tokenize_decimal)

lemma tokenize_spaces: "tokenize (replicate m CHR '' '' @ r) = tokenize r"
  by (induction m) (simp_all add: tokenize_space is_space_def)

lemma tokenize_newline_indent: "tokenize (newline_indent k @ r) = tokenize r"
  by (simp add: newline_indent_def tokenize_spaces tokenize_space is_space_def)

lemma tokenize_punct:
  "tokenize (CHR ''{'' # cs) = emit LBrace (tokenize cs)"
  "tokenize (CHR ''}'' # cs) = emit RBrace (tokenize cs)"
  "tokenize (CHR ''['' # cs) = emit LBracket (tokenize cs)"
  "tokenize (CHR '']'' # cs) = emit RBracket (tokenize cs)"
  "tokenize (CHR '','' # cs) = emit Comma (tokenize cs)"
  "tokenize (CHR '':'' # cs) = emit Colon (tokenize cs)"
  by (simp_all add: tokenize.simps(2) is_space_def)

lemma tokenize_literals:
  "tokenize (''null'' @ r) = emit TNull (tokenize r)"
  "tokenize (''true'' @ r) = emit TTrue (tokenize r)"
  "tokenize (''false'' @ r) = emit TFalse (tokenize r)"
  "tokenize (''NaN'' @ r) = emit (TFloat NaN) (tokenize r)"
  "tokenize (''Infinity'' @ r) = emit (TFloat PosInf) (tokenize r)"
  "tokenize (''-Infinity'' @ r) = emit (TFloat NegInf) (tokenize r)"
  by (simp_all add: tokenize.simps(2) is_space_def is_digit_def)

lemma char_eq_code: "(of_char c :: nat) = of_char d \<Longrightarrow> c = d"
  by simp

lemma hex_val_hex_digit: "m < 16 \<Longrightarrow> hex_val (hex_digit m) = Some m"
  by (auto simp: hex_val_def hex_digit_def Let_def)

lemma hex_val_zero: "hex_val CHR ''0'' = Some 0"
  by (simp add: hex_val_def)

lemma hex4_code: "n < 256 \<Longrightarrow> hex4 CHR ''0'' CHR ''0'' (hex_digit (n div 16)) (hex_digit (n mod 16)) = Some n"
proof -
  assume n: "n < 256"
  have a: "hex_val (hex_digit (n div 16)) = Some (n div 16)"
    using n by (intro hex_val_hex_digit) simp
  have b: "hex_val (hex_digit (n mod 16)) = Some (n mod 16)"
    by (intro hex_val_hex_digit) simp
  show ?thesis by (simp add: hex4_def hex_val_zero a b)
qed

declare scan_string.simps(2) [simp del]

lemma scan_string_escaped:
  "unescape e = Some ch \<Longrightarrow> e \<noteq> CHR ''u'' \<Longrightarrow>
   scan_string (CHR 0x5C # e # cs) = push_char ch 2 (scan_string cs)"
  by (simp add: scan_string.simps(2))

lemma scan_string_unicode:
  "n < 256 \<Longrightarrow>
   scan_string (CHR 0x5C # CHR ''u'' # CHR ''0'' # CHR ''0'' # hex_digit (n div 16) # hex_digit (n mod 16) # cs)
     = push_char (char_of n) 6 (scan_string cs)"
  by (simp add: scan_string.simps(2) hex4_code)

lemma scan_string_plain:
  "(of_char c :: nat) \<noteq> 0x22 \<Longrightarrow> (of_char c :: nat) \<noteq> 0x5C \<Longrightarrow> \<not> (of_char c :: nat) < 0x20 \<Longrightarrow>
   scan_string (c # cs) = push_char c 1 (scan_string cs)"
  by (auto simp: scan_string.simps(2))

lemma scan_escape_char:
  "scan_string (escape_char c @ cs) = push_char c (length (escape_char c)) (scan_string cs)"
proof -
  define n where "n = (of_char c :: nat)"
  consider "n = 0x22" | "n = 0x5C" | "n = 0x0A" | "n = 0x0D" | "n = 0x09" | "n = 0x08" | "n = 0x0C"
    | "n \<notin> {0x22, 0x5C, 0x0A, 0x0D, 0x09, 0x08, 0x0C}" "n < 0x20 \<or> 0x7E < n"
    | "n \<notin> {0x22, 0x5C, 0x0A, 0x0D, 0x09, 0x08, 0x0C}" "\<not> (n < 0x20 \<or> 0x7E < n)"
    by blast
  then show ?thesis
  proof cases
    case 1
    then have c: "c = CHR 0x22" unfolding n_def by (intro char_eq_code) simp
    have e: "escape_char c = [CHR 0x5C, CHR 0x22]" unfolding c by (simp add: escape_char_def)
    have l: "length (escape_char c) = 2" using e by simp
    have "scan_string (escape_char c @ cs) = push_char c 2 (scan_string cs)"
      unfolding e using scan_string_escaped [of "CHR 0x22" c cs] c by (simp add: unescape_def)
    then show ?thesis using l by simp
  next
    case 2
    then have c: "c = CHR 0x5C" unfolding n_def by (intro char_eq_code) simp
    have e: "escape_char c = [CHR 0x5C, CHR 0x5C]" unfolding c by (simp add: escape_char_def)
    have l: "length (escape_char c) = 2" using e by simp
    have "scan_string (escape_char c @ cs) = push_char c 2 (scan_string cs)"
      unfolding e using scan_string_escaped [of "CHR 0x5C" c cs] c by (simp add: unescape_def)
    then show ?thesis using l by simp
  next
    case 3
    then have c: "c = CHR 0x0A" unfolding n_def by (intro char_eq_code) simp
    have e: "escape_char c = [CHR 0x5C, CHR ''n'']" unfolding c by (simp add: escape_char_def)
    have l: "length (escape_char c) = 2" using e by simp
    have "scan_string (escape_char c @ cs) = push_char c 2 (scan_string cs)"
      unfolding e using scan_string_escaped [of "CHR ''n''" c cs] c by (simp add: unescape_def)
    then show ?thesis using l by simp
  next
    case 4
    then have c: "c = CHR 0x0D" unfolding n_def by (intro char_eq_code) simp
    have e: "escape_char c = [CHR 0x5C, CHR ''r'']" unfolding c by (simp add: escape_char_def)
    have l: "length (escape_char c) = 2" using e by simp
    have "scan_string (escape_char c @ cs) = push_char c 2 (scan_string cs)"
      unfolding e using scan_string_escaped [of "CHR ''r''" c cs] c by (simp add: unescape_def)
    then show ?thesis using l by simp
  next
    case 5
    then have c: "c = CHR 0x09" unfolding n_def by (intro char_eq_code) simp
    have e: "escape_char c = [CHR 0x5C, CHR ''t'']" unfolding c by (simp add: escape_char_def)
    have l: "length (escape_char c) = 2" using e by simp
    have "scan_string (escape_char c @ cs) = push_char c 2 (scan_string cs)"
      unfolding e using scan_string_escaped [of "CHR ''t''" c cs] c by (simp add: unescape_def)
    then show ?thesis using l by simp
  next
    case 6
    then have c: "c = CHR 0x08" unfolding n_def by (intro char_eq_code) simp
    have e: "escape_char c = [CHR 0x5C, CHR ''b'']" unfolding c by (simp add: escape_char_def)
    have l: "length (escape_char c) = 2" using e by simp
    have "scan_string (escape_char c @ cs) = push_char c 2 (scan_string cs)"
      unfolding e using scan_string_escaped [of "CHR ''b''" c cs] c by (simp add: unescape_def)
    then show ?thesis using l by simp
  next
    case 7
    then have c: "c = CHR 0x0C" unfolding n_def by (intro char_eq_code) simp
    have e: "escape_char c = [CHR 0x5C, CHR ''f'']" unfolding c by (simp add: escape_char_def)
    have l: "length (escape_char c) = 2" using e by simp
    have "scan_string (escape_char c @ cs) = push_char c 2 (scan_string cs)"
      unfolding e using scan_string_escaped [of "CHR ''f''" c cs] c by (simp add: unescape_def)
    then show ?thesis using l by simp
  next
    case 8
    have lt: "n < 256" unfolding n_def by (rule of_char_lt)
    have e: "escape_char c =
        [CHR 0x5C, CHR ''u'', CHR ''0'', CHR ''0'', hex_digit (n div 16), hex_digit (n mod 16)]"
      using 8 unfolding n_def by (simp add: escape_char_def Let_def)
    have cn: "char_of n = c" unfolding n_def by simp
    have l: "length (escape_char c) = 6" using e by simp
    have "scan_string (escape_char c @ cs) = push_char (char_of n) 6 (scan_string cs)"
      unfolding e using scan_string_unicode [OF lt, of cs] by simp
    then show ?thesis using l cn by simp
  next
    case 9
    have e: "escape_char c = [c]"
      using 9 unfolding n_def by (simp add: escape_char_def Let_def)
    have l: "length (escape_char c) = 1" using e by simp
    have "scan_string (escape_char c @ cs) = push_char c 1 (scan_string cs)"
      unfolding e using scan_string_plain [of c cs] 9 unfolding n_def by simp
    then show ?thesis using l by simp
  qed
qed

lemma scan_string_quote: "scan_string (CHR 0x22 # cs) = Scanned ([], 1)"
  by (simp add: scan_string.simps(2))

lemma scan_escaped_text:
  "scan_string (concat (map escape_char s) @ CHR 0x22 # r)
     = Scanned (s, Suc (length (concat (map escape_char s))))"
proof (induction s)
  case Nil
  show ?case by (simp add: scan_string_quote)
next
  case (Cons c s)
  have "scan_string (concat (map escape_char (c # s)) @ CHR 0x22 # r)
        = scan_string (escape_char c @ (concat (map escape_char s) @ CHR 0x22 # r))"
    by simp
  also have "\<dots> = push_char c (length (escape_char c))
                    (scan_string (concat (map escape_char s) @ CHR 0x22 # r))"
    by (rule scan_escape_char)
  finally show ?case using Cons.IH by (simp add: push_char_def)
qed

lemma tokenize_encode_str: "tokenize (encode_str s @ r) = emit (TStr s) (tokenize r)"
proof -
  have "tokenize (encode_str s @ r)
        = (case scan_string (concat (map escape_char s) @ CHR 0x22 # r) of
             Scanned (t, n) \<Rightarrow> emit (TStr t) (tokenize (drop n (concat (map escape_char s) @ CHR 0x22 # r)))
           | Malformed \<Rightarrow> Malformed
           | Unmodelled \<Rightarrow> Unmodelled)"
    by (simp add: encode_str_def tokenize.simps(2) is_space_def)
  then show ?thesis by (simp add: scan_escaped_text)
qed

lemma emit_all_simps [simp]:
  "emit_all [] r = r"
  "emit_all (t # ts) r = emit t (emit_all ts r)"
  "emit_all (ts @ us) r = emit_all ts (emit_all us r)"
  by (simp_all add: emit_all_def)

lemma emit_all_Scanned: "emit_all ts (Scanned us) = Scanned (ts @ us)"
  by (induction ts) (simp_all add: emit_def)

lemma safe_separator: "safe (('','' @ newline_indent k) @ r)" "safe (newline_indent k @ r)"
  by (simp_all add: newline_indent_def)

lemma tokenize_separator:
  "tokenize (('','' @ newline_indent k) @ r) = emit Comma (tokenize r)"
  using tokenize_newline_indent [of k r] by (simp add: tokenize_punct)

lemma tokenize_joined:
  assumes "\<forall>x \<in> set xs. \<forall>r. safe r \<longrightarrow> tokenize (enc x @ r) = emit_all (tok x) (tokenize r)"
      and "xs \<noteq> []" and "safe r"
  shows "tokenize (join ('','' @ newline_indent k) (map enc xs) @ r)
         = emit_all (commas (map tok xs)) (tokenize r)"
  using assms
proof (induction xs rule: induct_list012)
  case 1
  then show ?case by simp
next
  case (2 x)
  then show ?case by simp
next
  case (3 x y zs)
  have "tokenize (join ('','' @ newline_indent k) (map enc (x # y # zs)) @ r)
        = tokenize (enc x @ (('','' @ newline_indent k) @ (join ('','' @ newline_indent k) (map enc (y # zs)) @ r)))"
    by simp
  also have "\<dots> = emit_all (tok x)
       (tokenize (('','' @ newline_indent k) @ (join ('','' @ newline_indent k) (map enc (y # zs)) @ r)))"
    using 3(3) safe_separator(1) by simp
  also have "\<dots> = emit_all (tok x)
       (emit Comma (tokenize (join ('','' @ newline_indent k) (map enc (y # zs)) @ r)))"
    by (simp only: tokenize_separator)
  also have "\<dots> = emit_all (tok x) (emit Comma (emit_all (commas (map tok (y # zs))) (tokenize r)))"
    using 3(2) 3(3) 3(5) by simp
  finally show ?case by simp
qed

lemma tokenizes_array:
  assumes "\<forall>x \<in> set xs. tokenizes x"
  shows "tokenizes (JArr xs)"
  unfolding tokenizes_def
proof (intro allI impI)
  fix lvl r
  assume r: "safe r"
  show "tokenize (encode lvl (JArr xs) @ r) = emit_all (tokens (JArr xs)) (tokenize r)"
  proof (cases "xs = []")
    case True
    then show ?thesis by (simp add: tokenize_punct)
  next
    case False
    have el: "\<forall>x \<in> set xs. \<forall>r. safe r \<longrightarrow>
        tokenize (encode (Suc lvl) x @ r) = emit_all (tokens x) (tokenize r)"
      using assms unfolding tokenizes_def by blast
    have "tokenize (encode lvl (JArr xs) @ r)
          = emit LBracket (tokenize (newline_indent (Suc lvl) @
              (join ('','' @ newline_indent (Suc lvl)) (map (encode (Suc lvl)) xs) @
               (newline_indent lvl @ ('']'' @ r)))))"
      using False by (simp add: tokenize_punct)
    also have "\<dots> = emit LBracket (tokenize
              (join ('','' @ newline_indent (Suc lvl)) (map (encode (Suc lvl)) xs) @
               (newline_indent lvl @ ('']'' @ r))))"
      by (simp only: tokenize_newline_indent)
    also have "\<dots> = emit LBracket (emit_all (commas (map tokens xs))
              (tokenize (newline_indent lvl @ ('']'' @ r))))"
      using tokenize_joined [OF el False safe_separator(2)] by simp
    also have "\<dots> = emit LBracket (emit_all (commas (map tokens xs)) (emit RBracket (tokenize r)))"
      by (simp add: tokenize_newline_indent tokenize_punct)
    finally show ?thesis by simp
  qed
qed

lemma tokenize_member:
  assumes "tokenizes v" and "safe r"
  shows "tokenize ((encode_str k @ '': '' @ encode lvl v) @ r)
         = emit_all (TStr k # Colon # tokens v) (tokenize r)"
proof -
  have "tokenize ((encode_str k @ '': '' @ encode lvl v) @ r)
        = emit (TStr k) (tokenize ('': '' @ encode lvl v @ r))"
    using tokenize_encode_str [of k "'': '' @ encode lvl v @ r"] by simp
  also have "\<dots> = emit (TStr k) (emit Colon (tokenize (encode lvl v @ r)))"
    by (simp add: tokenize_punct tokenize_space is_space_def)
  finally show ?thesis using assms unfolding tokenizes_def by simp
qed

lemma tokenizes_object:
  assumes "\<forall>(k, v) \<in> set kvs. tokenizes v"
  shows "tokenizes (JObj kvs)"
  unfolding tokenizes_def
proof (intro allI impI)
  fix lvl r
  assume r: "safe r"
  let ?items = "sort_key fst kvs"
  let ?enc = "\<lambda>(k, v). encode_str k @ '': '' @ encode (Suc lvl) v"
  let ?tok = "\<lambda>(k, v). TStr k # Colon # tokens v"
  show "tokenize (encode lvl (JObj kvs) @ r) = emit_all (tokens (JObj kvs)) (tokenize r)"
  proof (cases "kvs = []")
    case True
    then show ?thesis by (simp add: tokenize_punct)
  next
    case False
    then have ne: "?items \<noteq> []" by (metis length_sort length_0_conv)
    have el: "\<forall>x \<in> set ?items. \<forall>r. safe r \<longrightarrow>
        tokenize (?enc x @ r) = emit_all (?tok x) (tokenize r)"
    proof (intro ballI allI impI)
      fix x r'
      assume x: "x \<in> set ?items" and r': "safe r'"
      obtain k v where kv: "x = (k, v)" by (cases x) auto
      have "tokenizes v" using assms x kv by auto
      then show "tokenize (?enc x @ r') = emit_all (?tok x) (tokenize r')"
        using tokenize_member [OF _ r', of v k "Suc lvl"] kv by simp
    qed
    have "tokenize (encode lvl (JObj kvs) @ r)
          = emit LBrace (tokenize (newline_indent (Suc lvl) @
              (join ('','' @ newline_indent (Suc lvl)) (map ?enc ?items) @
               (newline_indent lvl @ (''}'' @ r)))))"
      using False by (simp add: tokenize_punct)
    also have "\<dots> = emit LBrace (tokenize
              (join ('','' @ newline_indent (Suc lvl)) (map ?enc ?items) @
               (newline_indent lvl @ (''}'' @ r))))"
      by (simp only: tokenize_newline_indent)
    also have "\<dots> = emit LBrace (emit_all (commas (map ?tok ?items))
              (tokenize (newline_indent lvl @ (''}'' @ r))))"
      using tokenize_joined [OF el ne safe_separator(2)] by simp
    also have "\<dots> = emit LBrace (emit_all (commas (map ?tok ?items)) (emit RBrace (tokenize r)))"
      by (simp add: tokenize_newline_indent tokenize_punct)
    finally show ?thesis by simp
  qed
qed

lemma tokenizes_all: "tokenizes v"
proof (induction v)
  case JNull
  show ?case using tokenize_literals(1) by (simp add: tokenizes_def)
next
  case (JBool b)
  show ?case using tokenize_literals(2,3) by (cases b) (simp_all add: tokenizes_def)
next
  case (JInt i)
  show ?case by (simp add: tokenizes_def tokenize_encode_int)
next
  case (JFloat f)
  show ?case using tokenize_literals(4,5,6) by (cases f) (simp_all add: tokenizes_def)
next
  case (JStr s)
  show ?case by (simp add: tokenizes_def tokenize_encode_str)
next
  case (JArr xs)
  then show ?case using tokenizes_array by simp
next
  case (JObj kvs)
  have "\<forall>(k, v) \<in> set kvs. tokenizes v"
    using JObj by (auto simp: snds.simps)
  then show ?case using tokenizes_object by simp
qed

lemma tokenize_json_dumps: "tokenize (json_dumps v) = Scanned (tokens v)"
proof -
  have "tokenize (encode 0 v @ []) = emit_all (tokens v) (tokenize [])"
    using tokenizes_all [of v] unfolding tokenizes_def by (metis safe_simps(1))
  then show ?thesis by (simp add: json_dumps_def emit_all_Scanned)
qed

lemma json_loads_dumps: "json_loads (json_dumps v) = Some (Inr (decoded_form v))"
  by (simp add: json_loads_def tokenize_json_dumps parse_tokens)

section \<open>Decoded data equals itself\<close>









lemma serialize_plain_data: "serialize v = json_dumps (plain_data v)"
  by (simp add: serialize_def plain_data_def split: pyvalue.splits option.splits)

lemma deserialize_serialize:
  "deserialize (serialize v) = Some (Inr (decoded_form (plain_data v)))"
  by (simp add: deserialize_def serialize_plain_data json_loads_dumps)



lemma assert_match_compare:
  assumes "\<not> should_update h upd"
      and "map_of dir (get_snapshot_path h name) = Some stored"
      and "deserialize stored = Some (Inr expected)"
  shows "assert_match h v name upd dir =
           Some (if py_eq (decoded_form (plain_data v)) expected then Returns
                 else Raises (snapshot_mismatch name stored (serialize v)), dir)"
  using assms by (simp add: assert_match_def read_text_def Let_def deserialize_serialize)

section \<open>Snapshot round trip\<close>


lemma no_update_user_test: "\<not> should_update user_test None"
  by (simp add: should_update_def user_test_def)






section \<open>Snapshot mismatch\<close>

lemma mismatch_contains:
  "(\<exists>a b. message (snapshot_mismatch name stored actual) = a @ stored @ b) \<and>
   (\<exists>a b. message (snapshot_mismatch name stored actual) = a @ actual @ b)"
proof -
  let ?h = "''Snapshot mismatch for '' @ quoted name @ ''.'' @ [CHR 0x0A] @ ''Expected:'' @ [CHR 0x0A]"
  let ?m = "[CHR 0x0A, CHR 0x0A] @ ''Actual:'' @ [CHR 0x0A]"
  let ?t = "[CHR 0x0A, CHR 0x0A] @ ''To update snapshots, run with --mcp-update-snapshots''"
  have "message (snapshot_mismatch name stored actual) = ?h @ stored @ (?m @ actual @ ?t)"
    by (simp add: snapshot_mismatch_def)
  moreover have "message (snapshot_mismatch name stored actual) = (?h @ stored @ ?m) @ actual @ ?t"
    by (simp add: snapshot_mismatch_def)
  ultimately show ?thesis by blast
qed

text \<open>
  Claim C5. Every text the helper serializes decodes. With update mode off and a record
  stored under the name that decodes, \<open>assert_match\<close> leaves the directory as it is; it fails exactly when the decoded new
  value and the decoded record are not deeply equal, and then with an \<open>AssertionError\<close>
  whose message contains the stored text and the text of the new value. The witness is
  the specification's example: \<open>{"a": 1}\<close> stored, \<open>{"a": 2}\<close> compared.
\<close>

theorem snapshot_mismatch_iff_not_equal:
  "(\<exists>decoded. deserialize (serialize w) = Some (Inr decoded)) \<and>
   (\<not> should_update h upd \<and> map_of dir (get_snapshot_path h name) = Some stored \<and>
   deserialize stored = Some (Inr expected) \<longrightarrow>
     (\<exists>actual out.
        deserialize (serialize v) = Some (Inr actual) \<and>
        assert_match h v name upd dir = Some (out, dir) \<and>
        ((\<exists>e. out = Raises e) \<longleftrightarrow> \<not> py_eq actual expected) \<and>
        (py_eq actual expected \<longrightarrow> out = Returns) \<and>
        (\<not> py_eq actual expected \<longrightarrow>
           (\<exists>e. out = Raises e \<and> kind e = AssertionError \<and>
                (\<exists>a b. message e = a @ stored @ b) \<and>
                (\<exists>a b. message e = a @ serialize v @ b)))))"
proof (intro conjI impI)
  show "\<exists>decoded. deserialize (serialize w) = Some (Inr decoded)"
    using deserialize_serialize by blast
next
  assume a: "\<not> should_update h upd \<and> map_of dir (get_snapshot_path h name) = Some stored \<and>
   deserialize stored = Some (Inr expected)"
  let ?x = "decoded_form (plain_data v)"
  let ?out = "if py_eq ?x expected then Returns else Raises (snapshot_mismatch name stored (serialize v))"
  have ds: "deserialize (serialize v) = Some (Inr ?x)" by (rule deserialize_serialize)
  have r: "assert_match h v name upd dir = Some (?out, dir)"
    using assert_match_compare [of h upd dir name stored expected v] a by simp
  have k: "kind (snapshot_mismatch name stored (serialize v)) = AssertionError"
    by (simp add: snapshot_mismatch_def)
  have p: "((\<exists>e. ?out = Raises e) \<longleftrightarrow> \<not> py_eq ?x expected) \<and>
        (py_eq ?x expected \<longrightarrow> ?out = Returns) \<and>
        (\<not> py_eq ?x expected \<longrightarrow>
           (\<exists>e. ?out = Raises e \<and> kind e = AssertionError \<and>
                (\<exists>a b. message e = a @ stored @ b) \<and>
                (\<exists>a b. message e = a @ serialize v @ b)))"
    using k mismatch_contains [of name stored "serialize v"] by auto
  show "\<exists>actual out.
        deserialize (serialize v) = Some (Inr actual) \<and>
        assert_match h v name upd dir = Some (out, dir) \<and>
        ((\<exists>e. out = Raises e) \<longleftrightarrow> \<not> py_eq actual expected) \<and>
        (py_eq actual expected \<longrightarrow> out = Returns) \<and>
        (\<not> py_eq actual expected \<longrightarrow>
           (\<exists>e. out = Raises e \<and> kind e = AssertionError \<and>
                (\<exists>a b. message e = a @ stored @ b) \<and>
                (\<exists>a b. message e = a @ serialize v @ b)))"
    using ds r p by blast
qed

lemma decoded_a1: "deserialize (serialize a1) = Some (Inr (JObj [(''a'', JInt 1)]))"
  by code_simp

lemma decoded_a2: "deserialize (serialize a2) = Some (Inr (JObj [(''a'', JInt 2)]))"
  by code_simp

theorem snapshot_mismatch_iff_not_equal_witness:
  "\<not> should_update user_test None \<and>
   assert_match user_test a1 ''x'' None [] = Some (Returns, [(''test_user__x.json'', serialize a1)]) \<and>
   deserialize (serialize a1) = Some (Inr (JObj [(''a'', JInt 1)])) \<and>
   (\<exists>e. assert_match user_test a2 ''x'' None [(''test_user__x.json'', serialize a1)]
           = Some (Raises e, [(''test_user__x.json'', serialize a1)]) \<and>
        kind e = AssertionError \<and>
        str_contains (message e) ([CHR 0x22] @ ''a'' @ [CHR 0x22] @ '': 1'') \<and>
        str_contains (message e) ([CHR 0x22] @ ''a'' @ [CHR 0x22] @ '': 2''))"
proof -
  let ?dir = "[(''test_user__x.json'', serialize a1)]"
  have m: "map_of ?dir (get_snapshot_path user_test ''x'') = Some (serialize a1)"
    by (simp add: user_test_path)
  obtain actual out where
    da: "deserialize (serialize a2) = Some (Inr actual)" and
    r: "assert_match user_test a2 ''x'' None ?dir = Some (out, ?dir)" and
    ne: "\<not> py_eq actual (JObj [(''a'', JInt 1)]) \<longrightarrow> (\<exists>e. out = Raises e \<and> kind e = AssertionError)"
    using snapshot_mismatch_iff_not_equal
      [of a1 user_test None ?dir "''x''" "serialize a1" "JObj [(''a'', JInt 1)]" a2]
      no_update_user_test m decoded_a1 by blast
  have "actual = JObj [(''a'', JInt 2)]" using da decoded_a2 by simp
  then have "\<not> py_eq actual (JObj [(''a'', JInt 1)])" by (simp add: same_nan_def)
  then obtain e where e: "out = Raises e" and k: "kind e = AssertionError" using ne by blast
  have "e = snapshot_mismatch ''x'' (serialize a1) (serialize a2)"
    using r e changed_run by simp
  then show ?thesis using no_update_user_test first_run decoded_a1 r e k msg_contains by blast
qed

end
